theory Spec2Isabelle
  imports Complex_Main
begin

section \<open>The game server of Tartarus-Launch (src/server.js)\<close>

text \<open>
  The server holds one game session in the variables of its module: the object
  \<open>gameState\<close>, the socket of the simulation (the narrative collaborator)
  \<open>simulationSocket\<close>, and the handle of the countdown \<open>gameTimer\<close>. Every handler
  runs on the event loop until it returns or throws, so a handler is a function from
  the state to the new state and the list of what it sent, in the order of the source,
  or to the error that it throws.

  Strings are byte strings: the UTF-8 encoding of the text of the source. The encoding
  commutes with concatenation and preserves equality, and a string is empty exactly when
  its encoding is, which is all the source does with strings.
\<close>

subsection \<open>Values of the language\<close>

text \<open>
  The values that the server stores and sends. \<open>JBuiltin\<close> stands for an object or a
  function of the runtime (a property that every object literal inherits from
  \<open>Object.prototype\<close>), named by the property that gives it.
\<close>

datatype jsval =
    JUndefined
  | JNull
  | JBool bool
  | JNum int
  | JStr string
  | JArr "jsval list"
  | JObj "(string \<times> jsval) list"
  | JBuiltin string

text \<open>Truthiness, as \<open>if (v)\<close>, \<open>!v\<close> and \<open>v || w\<close> test it.\<close>

fun truthy :: "jsval \<Rightarrow> bool" where
  "truthy JUndefined = False"
| "truthy JNull = False"
| "truthy (JBool b) = b"
| "truthy (JNum n) = (n \<noteq> 0)"
| "truthy (JStr s) = (s \<noteq> [])"
| "truthy (JArr xs) = True"
| "truthy (JObj kvs) = True"
| "truthy (JBuiltin n) = True"

definition js_or :: "jsval \<Rightarrow> jsval \<Rightarrow> jsval" where
  "js_or v w = (if truthy v then v else w)"

text \<open>
  A field of a received payload is a string or is missing (\<open>undefined\<close> after the
  destructuring): the protocol of the server has no other field in the payloads that it
  tests or prints.
\<close>

fun field :: "string option \<Rightarrow> jsval" where
  "field None = JUndefined"
| "field (Some s) = JStr s"

text \<open>
  The names that every object literal inherits from \<open>Object.prototype\<close>: a read of
  one of them on \<open>nameMapping\<close> gives a function or an object, not \<open>undefined\<close>.
\<close>

definition Object_prototype :: "string list" where
  "Object_prototype =
     [''constructor'', ''__defineGetter__'', ''__defineSetter__'', ''hasOwnProperty'',
      ''__lookupGetter__'', ''__lookupSetter__'', ''isPrototypeOf'',
      ''propertyIsEnumerable'', ''toString'', ''valueOf'', ''__proto__'',
      ''toLocaleString'']"

text \<open>\<open>obj[key]\<close> on an object literal with the own properties \<open>kvs\<close>.\<close>

definition js_get :: "(string \<times> jsval) list \<Rightarrow> string \<Rightarrow> jsval" where
  "js_get kvs key =
     (case map_of kvs key of
        Some v \<Rightarrow> v
      | None \<Rightarrow> if key \<in> set Object_prototype then JBuiltin key else JUndefined)"

subsection \<open>The fixed texts of the source\<close>

definition label_captain :: string where \<comment> \<open>the display label of the captain (line 165)\<close>
  "label_captain = [CHR 0xEC, CHR 0x84, CHR 0xA0, CHR 0xEC, CHR 0x9E, CHR 0xA5]"

definition label_engineer :: string where \<comment> \<open>the display label of the engineer (line 166)\<close>
  "label_engineer = [CHR 0xEC, CHR 0x97, CHR 0x94, CHR 0xEC, CHR 0xA7, CHR 0x80, CHR 0xEB,
     CHR 0x8B, CHR 0x88, CHR 0xEC, CHR 0x96, CHR 0xB4]"

definition label_doctor :: string where \<comment> \<open>the display label of the doctor (line 167)\<close>
  "label_doctor = [CHR 0xEC, CHR 0x9D, CHR 0x98, CHR 0xEC, CHR 0x82, CHR 0xAC]"

definition label_pilot :: string where \<comment> \<open>the display label of the pilot (line 168)\<close>
  "label_pilot = [CHR 0xED, CHR 0x8C, CHR 0x8C, CHR 0xEC, CHR 0x9D, CHR 0xBC, CHR 0xEB,
     CHR 0x9F, CHR 0xBF]"

definition speaker_player :: string where \<comment> \<open>the speaker name of a player entry (line 119)\<close>
  "speaker_player = [CHR 0xED, CHR 0x94, CHR 0x8C, CHR 0xEB, CHR 0xA0, CHR 0x88, CHR 0xEC,
     CHR 0x9D, CHR 0xB4, CHR 0xEC, CHR 0x96, CHR 0xB4]"

definition timeoutChat :: string where \<comment> \<open>the chat line of the timeout (line 79): time is over, the traitor was not found\<close>
  "timeoutChat = ''[SYSTEM] '' @ [CHR 0xEC, CHR 0x8B, CHR 0x9C, CHR 0xEA, CHR 0xB0,
     CHR 0x84] @ '' '' @ [CHR 0xEC, CHR 0xA2, CHR 0x85, CHR 0xEB, CHR 0xA3, CHR 0x8C] @
     ''. '' @ [CHR 0xEB, CHR 0xB0, CHR 0xB0, CHR 0xEC, CHR 0x8B, CHR 0xA0, CHR 0xEC,
     CHR 0x9E, CHR 0x90, CHR 0xEB, CHR 0xA5, CHR 0xBC] @ '' '' @ [CHR 0xEC, CHR 0xB0,
     CHR 0xBE, CHR 0xEC, CHR 0xA7, CHR 0x80] @ '' '' @ [CHR 0xEB, CHR 0xAA, CHR 0xBB,
     CHR 0xED, CHR 0x96, CHR 0x88, CHR 0xEC, CHR 0x8A, CHR 0xB5, CHR 0xEB, CHR 0x8B,
     CHR 0x88, CHR 0xEB, CHR 0x8B, CHR 0xA4] @ ''.''"

definition timeoutMessage :: string where \<comment> \<open>the narrative of the timeout (line 82)\<close>
  "timeoutMessage = ''TARTARUS SYSTEM: [TIME OVER]. '' @ [CHR 0xEC, CHR 0xA0, CHR 0x9C,
     CHR 0xED, CHR 0x95, CHR 0x9C] @ '' '' @ [CHR 0xEC, CHR 0x8B, CHR 0x9C, CHR 0xEA,
     CHR 0xB0, CHR 0x84] @ '' '' @ [CHR 0xEB, CHR 0x82, CHR 0xB4] @ '' '' @ [CHR 0xEB,
     CHR 0xB0, CHR 0xB0, CHR 0xEC, CHR 0x8B, CHR 0xA0, CHR 0xEC, CHR 0x9E, CHR 0x90,
     CHR 0xEB, CHR 0xA5, CHR 0xBC] @ '' '' @ [CHR 0xEC, CHR 0xB0, CHR 0xBE, CHR 0xEC,
     CHR 0xA7, CHR 0x80] @ '' '' @ [CHR 0xEB, CHR 0xAA, CHR 0xBB, CHR 0xED, CHR 0x96,
     CHR 0x88, CHR 0xEC, CHR 0x8A, CHR 0xB5, CHR 0xEB, CHR 0x8B, CHR 0x88, CHR 0xEB,
     CHR 0x8B, CHR 0xA4] @ ''. '' @ [CHR 0xEB, CHR 0xAF, CHR 0xB8, CHR 0xEC, CHR 0x85,
     CHR 0x98] @ '' '' @ [CHR 0xEC, CHR 0x8B, CHR 0xA4, CHR 0xED, CHR 0x8C, CHR 0xA8] @
     ''.''"

definition victoryMessage :: string where \<comment> \<open>the narrative of a right accusation (lines 185 and 239)\<close>
  "victoryMessage = ''TARTARUS SYSTEM: [TARGET TERMINATED]. '' @ [CHR 0xEA, CHR 0xB4,
     CHR 0x80, CHR 0xEC, CHR 0xB0, CHR 0xB0] @ '' '' @ [CHR 0xEA, CHR 0xB2, CHR 0xB0,
     CHR 0xEA, CHR 0xB3, CHR 0xBC] @ '': '' @ [CHR 0xED, CHR 0x95, CHR 0x98, CHR 0xEC,
     CHR 0x96, CHR 0x80, CHR 0xEC, CHR 0x83, CHR 0x89] @ '' '' @ [CHR 0xEC, CHR 0x9C,
     CHR 0xA0, CHR 0xEC, CHR 0xB2, CHR 0xB4] @ ''(White Fluid) '' @ [CHR 0xEC, CHR 0x8B,
     CHR 0x9D, CHR 0xEB, CHR 0xB3, CHR 0x84, CHR 0xEB, CHR 0x90, CHR 0xA8] @ ''. '' @
     [CHR 0xEC, CHR 0x95, CHR 0x88, CHR 0xEB, CHR 0x93, CHR 0x9C, CHR 0xEB, CHR 0xA1,
     CHR 0x9C, CHR 0xEC, CHR 0x9D, CHR 0xB4, CHR 0xEB, CHR 0x93, CHR 0x9C] @ '' '' @
     [CHR 0xEB, CHR 0xB0, CHR 0xB0, CHR 0xEC, CHR 0x8B, CHR 0xA0, CHR 0xEC, CHR 0x9E,
     CHR 0x90] @ '' '' @ [CHR 0xEC, CHR 0xA0, CHR 0x9C, CHR 0xEA, CHR 0xB1, CHR 0xB0] @
     '' '' @ [CHR 0xEC, CHR 0x84, CHR 0xB1, CHR 0xEA, CHR 0xB3, CHR 0xB5] @ ''.''"

definition defeatMessage :: string where \<comment> \<open>the narrative of a wrong accusation (lines 199 and 240)\<close>
  "defeatMessage = ''TARTARUS SYSTEM: [TARGET TERMINATED]. '' @ [CHR 0xEA, CHR 0xB4,
     CHR 0x80, CHR 0xEC, CHR 0xB0, CHR 0xB0] @ '' '' @ [CHR 0xEA, CHR 0xB2, CHR 0xB0,
     CHR 0xEA, CHR 0xB3, CHR 0xBC] @ '': '' @ [CHR 0xEB, CHR 0xB6, CHR 0x89, CHR 0xEC,
     CHR 0x9D, CHR 0x80] @ '' '' @ [CHR 0xED, CHR 0x98, CHR 0x88, CHR 0xEC, CHR 0x95,
     CHR 0xA1] @ ''(Red Blood) '' @ [CHR 0xEC, CHR 0x8B, CHR 0x9D, CHR 0xEB, CHR 0xB3,
     CHR 0x84, CHR 0xEB, CHR 0x90, CHR 0xA8] @ ''. '' @ [CHR 0xEB, CHR 0xAC, CHR 0xB4,
     CHR 0xEA, CHR 0xB3, CHR 0xA0, CHR 0xED, CHR 0x95, CHR 0x9C] @ '' '' @ [CHR 0xEC,
     CHR 0x8A, CHR 0xB9, CHR 0xEB, CHR 0xAC, CHR 0xB4, CHR 0xEC, CHR 0x9B, CHR 0x90] @ '' ''
     @ [CHR 0xEC, CHR 0x82, CHR 0xAC, CHR 0xEB, CHR 0xA7, CHR 0x9D] @ ''. '' @ [CHR 0xEB,
     CHR 0xAF, CHR 0xB8, CHR 0xEC, CHR 0x85, CHR 0x98] @ '' '' @ [CHR 0xEC, CHR 0x8B,
     CHR 0xA4, CHR 0xED, CHR 0x8C, CHR 0xA8] @ ''.''"

definition executed_suffix :: string where \<comment> \<open>the end of the chat line of an execution (lines 187 and 201)\<close>
  "executed_suffix = '' '' @ [CHR 0xEC, CHR 0xB2, CHR 0x98, CHR 0xED, CHR 0x98, CHR 0x95] @
     '' '' @ [CHR 0xEC, CHR 0x99, CHR 0x84, CHR 0xEB, CHR 0xA3, CHR 0x8C] @ ''.''"

definition noSimulationMessage :: string where \<comment> \<open>the message of the degraded mode (line 142)\<close>
  "noSimulationMessage = ''[SYSTEM] AI '' @ [CHR 0xEC, CHR 0x8B, CHR 0x9C, CHR 0xEB,
     CHR 0xAE, CHR 0xAC, CHR 0xEB, CHR 0xA0, CHR 0x88, CHR 0xEC, CHR 0x9D, CHR 0xB4,
     CHR 0xEC, CHR 0x85, CHR 0x98] @ '' '' @ [CHR 0xEB, CHR 0xAA, CHR 0xA8, CHR 0xEB,
     CHR 0x93, CHR 0x88, CHR 0xEC, CHR 0x9D, CHR 0xB4] @ '' '' @ [CHR 0xEC, CHR 0x97,
     CHR 0xB0, CHR 0xEA, CHR 0xB2, CHR 0xB0, CHR 0xEB, CHR 0x90, CHR 0x98, CHR 0xEC,
     CHR 0xA7, CHR 0x80] @ '' '' @ [CHR 0xEC, CHR 0x95, CHR 0x8A, CHR 0xEC, CHR 0x95,
     CHR 0x98, CHR 0xEC, CHR 0x8A, CHR 0xB5, CHR 0xEB, CHR 0x8B, CHR 0x88, CHR 0xEB,
     CHR 0x8B, CHR 0xA4] @ ''.''"

definition choice_retry :: string where \<comment> \<open>first choice of the degraded mode (line 143): try again\<close>
  "choice_retry = [CHR 0xEB, CHR 0x8B, CHR 0xA4, CHR 0xEC, CHR 0x8B, CHR 0x9C] @ '' '' @
     [CHR 0xEC, CHR 0x8B, CHR 0x9C, CHR 0xEB, CHR 0x8F, CHR 0x84]"

definition choice_wait :: string where \<comment> \<open>the choice to wait (lines 143 and 228)\<close>
  "choice_wait = [CHR 0xEB, CHR 0x8C, CHR 0x80, CHR 0xEA, CHR 0xB8, CHR 0xB0]"

definition choice_check_system :: string where \<comment> \<open>third choice of the degraded mode (line 143): check the system\<close>
  "choice_check_system = [CHR 0xEC, CHR 0x8B, CHR 0x9C, CHR 0xEC, CHR 0x8A, CHR 0xA4,
     CHR 0xED, CHR 0x85, CHR 0x9C] @ '' '' @ [CHR 0xED, CHR 0x99, CHR 0x95, CHR 0xEC,
     CHR 0x9D, CHR 0xB8]"

definition choice_continue :: string where \<comment> \<open>first default choice of a narration (line 228): continue\<close>
  "choice_continue = [CHR 0xEA, CHR 0xB3, CHR 0x84, CHR 0xEC, CHR 0x86, CHR 0x8D]"

definition choice_confirm :: string where \<comment> \<open>third default choice of a narration (line 228): confirm\<close>
  "choice_confirm = [CHR 0xED, CHR 0x99, CHR 0x95, CHR 0xEC, CHR 0x9D, CHR 0xB8]"

text \<open>The constants of the source: the roles, the table of the accusation, the choices.\<close>

definition ROLES :: "string list" where
  "ROLES = [''Captain'', ''Engineer'', ''Doctor'', ''Pilot'']"

text \<open>\<open>ROLES[i]\<close>: an index outside the array reads \<open>undefined\<close>.\<close>

definition ROLES_at :: "int \<Rightarrow> jsval" where
  "ROLES_at i = (if 0 \<le> i \<and> i < int (length ROLES) then JStr (ROLES ! nat i) else JUndefined)"

definition nameMapping :: "(string \<times> jsval) list" where
  "nameMapping =
     [(label_captain, JStr ''Captain''), (label_engineer, JStr ''Engineer''),
      (label_doctor, JStr ''Doctor''), (label_pilot, JStr ''Pilot'')]"

definition degradedChoices :: jsval where
  "degradedChoices = JArr [JStr choice_retry, JStr choice_wait, JStr choice_check_system]"

definition defaultChoices :: jsval where
  "defaultChoices = JArr [JStr choice_continue, JStr choice_wait, JStr choice_confirm]"

text \<open>
  A number of the language is a double. \<open>n += 1\<close> on a double that holds an
  integer between \<open>-2^53\<close> and \<open>2^53\<close> is exact below \<open>2^53\<close>, and at
  \<open>2^53\<close> the sum rounds back to \<open>2^53\<close>. The turn starts at 0 and changes by
  this sum only, so it stays in that range. The time goes from 600 down to 0 by 1, where
  every operation is exact.
\<close>

definition plus_one :: "int \<Rightarrow> int" where
  "plus_one n = (if n < 2 ^ 53 then n + 1 else n)"

text \<open>
  The argument of an event that a client sends. Destructuring \<open>undefined\<close> or
  \<open>null\<close> throws a \<open>TypeError\<close>: that is \<open>NoPayload\<close>. Destructuring any other
  value reads its properties, each a string or missing: that is \<open>Payload\<close> with the
  fields that the handler reads.
\<close>

datatype 'a payload = NoPayload | Payload 'a

datatype error = TypeError

subsection \<open>The state of the server\<close>

record game_state =
  turn :: int
  playerLocation :: string
  isAlive :: bool
  conversation :: "jsval list"
  gameOver :: bool
  traitor :: jsval
  timeRemaining :: int
  gameResult :: jsval

text \<open>
  Beside the three variables of the module, the state holds what the runtime knows:
  \<open>intervals\<close>, the handles of the intervals that are armed and not cleared (a tick of
  a handle outside it never runs), \<open>next_interval\<close>, the next fresh handle,
  \<open>sockets\<close>, the connections that are open, and \<open>exited\<close>, whether the process
  has ended on an exception that nothing caught. A handle and a socket are objects in
  the source, compared by identity; here they are numbers.
\<close>

record server =
  gameState :: game_state
  simulationSocket :: "nat option"
  gameTimer :: "nat option"
  intervals :: "nat set"
  next_interval :: nat
  sockets :: "nat set"
  exited :: bool

text \<open>
  What a handler does to the outside, in order: \<open>io.emit\<close> to every client,
  \<open>emit\<close> on one socket, and the lines of the console. A line of the console is
  recorded by its place in the source and the values it interpolates, not by its text.
  \<open>Uncaught\<close> is the report of the runtime when a handler throws and nothing catches
  the exception.
\<close>

datatype logline =
    GAME_START jsval
  | GAME_OVER_TIME
  | CONNECTED
  | SIMULATION_CONNECTED
  | PLAYER string
  | TURN int int
  | ACCUSE_GAME_ALREADY_OVER
  | ACCUSE_NO_TARGETNAME
  | ACCUSE string
  | VICTORY string jsval
  | DEFEAT string jsval
  | AI jsval
  | GAME_RESTART jsval
  | SIMULATION_DISCONNECTED
  | DISCONNECTED

datatype out =
    IoEmit string "jsval list"
  | SocketEmit nat string "jsval list"
  | ConsoleLog logline
  | ConsoleError logline
  | Uncaught error

definition initialState :: server where
  "initialState =
     \<lparr>gameState =
        \<lparr>turn = 0, playerLocation = ''bridge'', isAlive = True, conversation = [],
         gameOver = False, traitor = JNull, timeRemaining = 600, gameResult = JNull\<rparr>,
      simulationSocket = None, gameTimer = None, intervals = {}, next_interval = 0,
      sockets = {}, exited = False\<rparr>"

subsection \<open>The timer of the runtime\<close>

text \<open>\<open>clearInterval(h)\<close>: no effect on \<open>null\<close> or on a handle already cleared.\<close>

definition clearInterval :: "nat option \<Rightarrow> server \<Rightarrow> server" where
  "clearInterval h s =
     (case h of None \<Rightarrow> s | Some t \<Rightarrow> s\<lparr>intervals := intervals s - {t}\<rparr>)"

text \<open>\<open>setInterval(callback, 1000)\<close>: arms a new interval and returns its handle.\<close>

definition setInterval :: "server \<Rightarrow> nat \<times> server" where
  "setInterval s =
     (next_interval s,
      s\<lparr>intervals := insert (next_interval s) (intervals s),
        next_interval := Suc (next_interval s)\<rparr>)"

subsection \<open>startGame and the callback of the timer\<close>

text \<open>
  \<open>startGame\<close> (lines 39 to 89). \<open>u\<close> is what \<open>Math.random()\<close> returns, a number
  in \<open>[0, 1)\<close>; the product by the length 4 is exact on doubles, so the index is the
  floor of the real product.
\<close>

definition startGame :: "real \<Rightarrow> server \<Rightarrow> server \<times> out list" where
  "startGame u s0 =
     (let s1 = (if gameTimer s0 \<noteq> None
                then (clearInterval (gameTimer s0) s0)\<lparr>gameTimer := None\<rparr> else s0);
          t = ROLES_at \<lfloor>u * real (length ROLES)\<rfloor>;
          s2 = s1\<lparr>gameState := (gameState s1)
                 \<lparr>turn := 0, playerLocation := ''bridge'', isAlive := True,
                  conversation := [], gameOver := False, timeRemaining := 600,
                  gameResult := JNull, traitor := t\<rparr>\<rparr>;
          o1 = [ConsoleLog (GAME_START t)];
          o2 = (case simulationSocket s2 of
                  Some c \<Rightarrow> [SocketEmit c ''secret_traitor_info'' [t]]
                | None \<Rightarrow> []);
          (h, s3) = setInterval s2
      in (s3\<lparr>gameTimer := Some h\<rparr>, o1 @ o2))"

text \<open>
  The callback of the interval (lines 64 to 88). It reads the variables of the module
  when it runs, so every armed interval runs this same function.
\<close>

definition gameTimer_callback :: "server \<Rightarrow> server \<times> out list" where
  "gameTimer_callback s =
     (if gameOver (gameState s) then (clearInterval (gameTimer s) s, [])
      else
        let t = max 0 (timeRemaining (gameState s) - 1);
            s1 = s\<lparr>gameState := (gameState s)\<lparr>timeRemaining := t\<rparr>\<rparr>;
            o1 = [IoEmit ''time update'' [JObj [(''timeRemaining'', JNum t)]]]
        in if timeRemaining (gameState s1) \<le> 0 \<and> \<not> gameOver (gameState s1)
           then
             let s2 = s1\<lparr>gameState := (gameState s1)
                        \<lparr>gameOver := True, gameResult := JStr ''defeat''\<rparr>\<rparr>
             in (clearInterval (gameTimer s2) s2,
                 o1 @ [IoEmit ''chat message'' [JStr timeoutChat],
                       IoEmit ''game_over''
                         [JObj [(''result'', JStr ''defeat''),
                                (''message'', JStr timeoutMessage),
                                (''realTraitor'', traitor (gameState s2))]],
                       ConsoleLog GAME_OVER_TIME])
           else (s1, o1))"

subsection \<open>The handlers of a connection\<close>

text \<open>\<open>simulation-ready\<close> (lines 98 to 105).\<close>

definition on_simulation_ready :: "nat \<Rightarrow> server \<Rightarrow> server \<times> out list" where
  "on_simulation_ready socket s =
     (let s1 = s\<lparr>simulationSocket := Some socket\<rparr>
      in (s1, ConsoleLog SIMULATION_CONNECTED #
              (if truthy (traitor (gameState s1))
               then [SocketEmit socket ''secret_traitor_info'' [traitor (gameState s1)]]
               else [])))"

text \<open>
  A handler that destructures its argument returns \<open>Inl TypeError\<close> when it throws
  there, and \<open>Inr\<close> of the new state and what it sent when it returns.

  \<open>action\<close> (lines 108 to 146). The handler is \<open>async\<close> and awaits nothing, so it
  runs at once, and its throw is the rejection of its promise. The line of the console
  at line 125 is recorded with the turn and the time it formats.
\<close>

definition on_action ::
  "nat \<Rightarrow> (string option \<times> string option) payload \<Rightarrow> server \<Rightarrow>
   error + server \<times> out list" where
  "on_action socket actionData s =
     (if gameOver (gameState s) then Inr (s, [])
      else case actionData of
        NoPayload \<Rightarrow> Inl TypeError
      | Payload (message, playerAction) \<Rightarrow>
        let (s1, o1) =
              (case message of
                 Some m \<Rightarrow>
                   if truthy (JStr m)
                   then (s\<lparr>gameState := (gameState s)
                            \<lparr>conversation := conversation (gameState s) @
                               [JObj [(''speaker'', JStr speaker_player),
                                      (''text'', JStr m)]]\<rparr>\<rparr>,
                         [ConsoleLog (PLAYER m), IoEmit ''chat message'' [JStr (''> '' @ m)]])
                   else (s, [])
               | None \<Rightarrow> (s, []));
            s2 = s1\<lparr>gameState := (gameState s1)
                   \<lparr>turn := plus_one (turn (gameState s1))\<rparr>\<rparr>;
            o2 = [ConsoleLog (TURN (turn (gameState s2)) (timeRemaining (gameState s2)))];
            o3 = (case simulationSocket s2 of
                    Some c \<Rightarrow>
                      [SocketEmit c ''generateResponse''
                         [JObj [(''turn'', JNum (turn (gameState s2))),
                                (''playerAction'', js_or (field playerAction) (field message)),
                                (''conversation'',
                                   JArr (drop (length (conversation (gameState s2)) - 20)
                                           (conversation (gameState s2)))),
                                (''gameState'',
                                   JObj [(''location'', JStr (playerLocation (gameState s2))),
                                         (''isAlive'', JBool (isAlive (gameState s2))),
                                         (''timeRemaining'',
                                            JNum (timeRemaining (gameState s2)))])]]]
                  | None \<Rightarrow>
                      [IoEmit ''game response''
                         [JObj [(''message'', JStr noSimulationMessage),
                                (''choices'', degradedChoices)]]])
        in Inr (s2, o1 @ o2 @ o3))"

text \<open>\<open>accuse\<close> (lines 149 to 209).\<close>

definition on_accuse ::
  "nat \<Rightarrow> string option payload \<Rightarrow> server \<Rightarrow> error + server \<times> out list" where
  "on_accuse socket data s =
     (if gameOver (gameState s) then Inr (s, [ConsoleLog ACCUSE_GAME_ALREADY_OVER])
      else case data of
        NoPayload \<Rightarrow> Inl TypeError
      | Payload None \<Rightarrow> Inr (s, [ConsoleError ACCUSE_NO_TARGETNAME])
      | Payload (Some n) \<Rightarrow>
          if \<not> truthy (JStr n) then Inr (s, [ConsoleError ACCUSE_NO_TARGETNAME])
          else
            let accusedRole = js_or (js_get nameMapping n) (JStr n);
                s1 = (if gameTimer s \<noteq> None
                      then (clearInterval (gameTimer s) s)\<lparr>gameTimer := None\<rparr> else s)
            in if accusedRole = traitor (gameState s1)
               then Inr
                 (s1\<lparr>gameState := (gameState s1)
                       \<lparr>gameOver := True, gameResult := JStr ''victory''\<rparr>\<rparr>,
                  [ConsoleLog (ACCUSE n),
                   IoEmit ''chat message'' [JStr (''[SYSTEM] '' @ n @ executed_suffix)],
                   IoEmit ''game_over''
                     [JObj [(''result'', JStr ''victory''),
                            (''message'', JStr victoryMessage),
                            (''realTraitor'', traitor (gameState s1))]],
                   ConsoleLog (VICTORY n (traitor (gameState s1)))])
               else Inr
                 (s1\<lparr>gameState := (gameState s1)
                       \<lparr>gameOver := True, gameResult := JStr ''defeat''\<rparr>\<rparr>,
                  [ConsoleLog (ACCUSE n),
                   IoEmit ''chat message'' [JStr (''[SYSTEM] '' @ n @ executed_suffix)],
                   IoEmit ''game_over''
                     [JObj [(''result'', JStr ''defeat''),
                            (''message'', JStr defeatMessage),
                            (''realTraitor'', traitor (gameState s1))]],
                   ConsoleLog (DEFEAT n (traitor (gameState s1)))]))"

text \<open>
  \<open>ai response\<close> (lines 212 to 230). An array is truthy even when it is empty, so
  the default choices replace only choices that are missing.
\<close>

definition on_ai_response ::
  "nat \<Rightarrow> (string option \<times> string list option) payload \<Rightarrow> server \<Rightarrow>
   error + server \<times> out list" where
  "on_ai_response socket response s =
     (if gameOver (gameState s) then Inr (s, [])
      else case response of
        NoPayload \<Rightarrow> Inl TypeError
      | Payload (message, choices) \<Rightarrow> Inr
        (s\<lparr>gameState := (gameState s)
             \<lparr>conversation := conversation (gameState s) @
                [JObj [(''speaker'', JStr ''AI''), (''text'', field message)]]\<rparr>\<rparr>,
         [ConsoleLog (AI (field message)),
          IoEmit ''chat message'' [field message],
          IoEmit ''game response''
            [JObj [(''message'', field message),
                   (''choices'',
                      js_or (case choices of
                               None \<Rightarrow> JUndefined
                             | Some cs \<Rightarrow> JArr (map JStr cs)) defaultChoices)]]]))"

text \<open>\<open>request-initial-state\<close> (lines 233 to 243).\<close>

definition on_request_initial_state :: "nat \<Rightarrow> server \<Rightarrow> server \<times> out list" where
  "on_request_initial_state socket s =
     (s, SocketEmit socket ''time update''
           [JObj [(''timeRemaining'', JNum (timeRemaining (gameState s)))]] #
         (if gameOver (gameState s)
          then [SocketEmit socket ''game_over''
                  [JObj [(''result'', gameResult (gameState s)),
                         (''message'',
                            if gameResult (gameState s) = JStr ''victory''
                            then JStr victoryMessage else JStr defeatMessage)]]]
          else []))"

text \<open>\<open>restart_game\<close> (lines 246 to 255).\<close>

definition on_restart_game :: "nat \<Rightarrow> real \<Rightarrow> server \<Rightarrow> server \<times> out list" where
  "on_restart_game socket u s =
     (let (s1, o1) = startGame u s;
          o2 = [IoEmit ''system_reset'' []];
          o3 = (case simulationSocket s1 of
                  Some c \<Rightarrow> [SocketEmit c ''secret_traitor_info'' [traitor (gameState s1)]]
                | None \<Rightarrow> [])
      in (s1, o1 @ o2 @ o3 @ [ConsoleLog (GAME_RESTART (traitor (gameState s1)))]))"

text \<open>\<open>disconnect\<close> (lines 258 to 265).\<close>

definition on_disconnect :: "nat \<Rightarrow> server \<Rightarrow> server \<times> out list" where
  "on_disconnect socket s =
     (if Some socket = simulationSocket s
      then (s\<lparr>simulationSocket := None\<rparr>, [ConsoleLog SIMULATION_DISCONNECTED])
      else (s, [ConsoleLog DISCONNECTED]))"

subsection \<open>The server as a machine of events\<close>

text \<open>
  What the event loop delivers: a tick of an interval, a new connection, and the events
  of a socket, each with its payload (\<open>restart_game\<close> with what \<open>Math.random()\<close> will
  return). A tick of a cleared interval and an event of a socket that is not open do
  not happen: they leave the state as it is.

  The source catches no exception and registers no listener for one, so a handler that
  throws ends the process, which is what the runtime does by default (also with the
  rejected promise of an \<open>async\<close> handler): the runtime reports the exception, and
  with the process go its intervals and its connections; it accepts no connection
  afterwards. The variables keep the values they had, which nothing reads any more.
\<close>

datatype event =
    Tick nat
  | Connection nat
  | SimulationReady nat
  | Action nat "(string option \<times> string option) payload"
  | Accuse nat "string option payload"
  | AiResponse nat "(string option \<times> string list option) payload"
  | RequestInitialState nat
  | RestartGame nat real
  | Disconnect nat

fun socket_of :: "event \<Rightarrow> nat option" where
  "socket_of (Tick h) = None"
| "socket_of (Connection k) = None"
| "socket_of (SimulationReady k) = Some k"
| "socket_of (Action k d) = Some k"
| "socket_of (Accuse k d) = Some k"
| "socket_of (AiResponse k d) = Some k"
| "socket_of (RequestInitialState k) = Some k"
| "socket_of (RestartGame k u) = Some k"
| "socket_of (Disconnect k) = Some k"

fun handle :: "event \<Rightarrow> server \<Rightarrow> error + server \<times> out list" where
  "handle (Tick h) s = Inr (if h \<in> intervals s then gameTimer_callback s else (s, []))"
| "handle (Connection k) s =
     Inr (if exited s \<or> k \<in> sockets s then (s, [])
          else (s\<lparr>sockets := insert k (sockets s)\<rparr>, [ConsoleLog CONNECTED]))"
| "handle (SimulationReady k) s = Inr (on_simulation_ready k s)"
| "handle (Action k d) s = on_action k d s"
| "handle (Accuse k d) s = on_accuse k d s"
| "handle (AiResponse k d) s = on_ai_response k d s"
| "handle (RequestInitialState k) s = Inr (on_request_initial_state k s)"
| "handle (RestartGame k u) s = Inr (on_restart_game k u s)"
| "handle (Disconnect k) s = Inr (on_disconnect k (s\<lparr>sockets := sockets s - {k}\<rparr>))"

text \<open>What becomes of the server when the handler run on \<open>s\<close> ends with \<open>r\<close>.\<close>

definition uncaught :: "server \<Rightarrow> error + server \<times> out list \<Rightarrow> server \<times> out list" where
  "uncaught s r =
     (case r of
        Inr returned \<Rightarrow> returned
      | Inl err \<Rightarrow> (s\<lparr>exited := True, intervals := {}, sockets := {}\<rparr>, [Uncaught err]))"

definition step :: "server \<Rightarrow> event \<Rightarrow> server \<times> out list" where
  "step s e =
     (case socket_of e of
        Some k \<Rightarrow> if k \<in> sockets s then uncaught s (handle e s) else (s, [])
      | None \<Rightarrow> uncaught s (handle e s))"

fun run :: "server \<Rightarrow> event list \<Rightarrow> server \<times> out list" where
  "run s [] = (s, [])"
| "run s (e # es) =
     (let (s1, o1) = step s e; (s2, o2) = run s1 es in (s2, o1 @ o2))"

text \<open>The load of the module (line 92): \<open>startGame()\<close> on the initial state.\<close>

definition boot :: "real \<Rightarrow> server \<times> out list" where
  "boot u = startGame u initialState"


subsection \<open>Reading what was sent\<close>

fun is_broadcast :: "out \<Rightarrow> bool" where
  "is_broadcast (IoEmit name args) = True"
| "is_broadcast other = False"

fun is_game_over_event :: "out \<Rightarrow> bool" where
  "is_game_over_event (IoEmit name args) = (name = ''game_over'')"
| "is_game_over_event other = False"

definition broadcasts :: "out list \<Rightarrow> out list" where
  "broadcasts outs = filter is_broadcast outs"

text \<open>The broadcasts other than the \<open>game_over\<close> event.\<close>

definition public_before_end :: "out list \<Rightarrow> out list" where
  "public_before_end outs =
     filter (\<lambda>x. is_broadcast x \<and> \<not> is_game_over_event x) outs"

text \<open>Every emission of the event \<open>secret_traitor_info\<close>: to all, or to which socket.\<close>

fun secret_sends :: "out list \<Rightarrow> (nat option \<times> jsval list) list" where
  "secret_sends [] = []"
| "secret_sends (IoEmit name args # outs) =
     (if name = ''secret_traitor_info'' then (None, args) # secret_sends outs
      else secret_sends outs)"
| "secret_sends (SocketEmit k name args # outs) =
     (if name = ''secret_traitor_info'' then (Some k, args) # secret_sends outs
      else secret_sends outs)"
| "secret_sends (other # outs) = secret_sends outs"

subsection \<open>The states that the server reaches\<close>

text \<open>\<open>Math.random()\<close> returns a number that is at least 0 and less than 1.\<close>

definition valid_draw :: "real \<Rightarrow> bool" where
  "valid_draw u = (0 \<le> u \<and> u < 1)"

fun valid_event :: "event \<Rightarrow> bool" where
  "valid_event (RestartGame k u) = valid_draw u"
| "valid_event other = True"

fun is_restart :: "event \<Rightarrow> bool" where
  "is_restart (RestartGame k u) = True"
| "is_restart other = False"

inductive reachable :: "server \<Rightarrow> bool" where
  reachable_boot: "valid_draw u \<Longrightarrow> reachable (fst (boot u))"
| reachable_step: "reachable s \<Longrightarrow> valid_event e \<Longrightarrow> reachable (fst (step s e))"

text \<open>
  What holds in every state that the server reaches: only the interval of \<open>gameTimer\<close>
  can be armed, every armed handle was given out before, none is armed once the game is
  over, the traitor is a role, the time is not negative, the turn is a count that a
  double holds exactly, and a process that has ended has no interval and no connection.
\<close>

definition invariant :: "server \<Rightarrow> bool" where
  "invariant s =
     (intervals s \<subseteq> set_option (gameTimer s) \<and>
      (\<forall>h \<in> intervals s. h < next_interval s) \<and>
      (gameOver (gameState s) \<longrightarrow> intervals s = {}) \<and>
      traitor (gameState s) \<in> JStr ` set ROLES \<and>
      0 \<le> timeRemaining (gameState s) \<and>
      0 \<le> turn (gameState s) \<and> turn (gameState s) \<le> 2 ^ 53 \<and>
      (exited s \<longrightarrow> intervals s = {} \<and> sockets s = {}))"

subsection \<open>The table of the accusation, as the specification words it\<close>

text \<open>
  The canonical role of a name, following the words of the specification: the name is
  looked up in the fixed table from display labels to roles, and a name that the table
  does not have passes through unchanged.
\<close>

definition label_table :: "(string \<times> string) list" where
  "label_table =
     [(label_captain, ''Captain''), (label_engineer, ''Engineer''),
      (label_doctor, ''Doctor''), (label_pilot, ''Pilot'')]"

definition canonical_role :: "string \<Rightarrow> string" where
  "canonical_role n = (case map_of label_table n of Some r \<Rightarrow> r | None \<Rightarrow> n)"



subsection \<open>Sessions to run the handlers on\<close>

text \<open>
  A session whose draw is 1/2, so that the traitor is the doctor, with the simulation on
  socket 1 and a spectator on socket 2; and the same session after the spectator has
  accused the doctor.
\<close>

definition two_peers :: server where
  "two_peers = fst (run (fst (boot (1/2))) [Connection 1, SimulationReady 1, Connection 2])"

definition ended_session :: server where
  "ended_session = fst (step two_peers (Accuse 2 (Payload (Some label_doctor))))"

subsection \<open>The prompt of an action, as the specification words it\<close>

text \<open>
  The most recent \<open>n\<close> entries of a log, or all of them when it has fewer; and the
  effective action of a payload, where \<open>playerAction\<close> has priority over
  \<open>message\<close>. A field that is missing or empty does not count as supplied.
\<close>

definition last_entries :: "nat \<Rightarrow> 'a list \<Rightarrow> 'a list" where
  "last_entries n xs = rev (take n (rev xs))"

fun supplied :: "string option \<Rightarrow> bool" where
  "supplied None = False"
| "supplied (Some t) = (t \<noteq> [])"

definition effective_action :: "string option \<Rightarrow> string option \<Rightarrow> jsval" where
  "effective_action playerAction message =
     (if supplied playerAction then field playerAction else field message)"

subsection \<open>Counting what a run does\<close>

text \<open>
  How many steps of a run take \<open>gameOver\<close> from false to true, how many take it back
  from true to false, and how many times the \<open>game_over\<close> event is broadcast.
\<close>

fun latchings :: "server \<Rightarrow> event list \<Rightarrow> nat" where
  "latchings s [] = 0"
| "latchings s (e # es) =
     (if \<not> gameOver (gameState s) \<and> gameOver (gameState (fst (step s e))) then 1 else 0)
     + latchings (fst (step s e)) es"

fun unlatchings :: "server \<Rightarrow> event list \<Rightarrow> nat" where
  "unlatchings s [] = 0"
| "unlatchings s (e # es) =
     (if gameOver (gameState s) \<and> \<not> gameOver (gameState (fst (step s e))) then 1 else 0)
     + unlatchings (fst (step s e)) es"

definition resolutions :: "out list \<Rightarrow> nat" where
  "resolutions outs = length (filter is_game_over_event outs)"

subsection \<open>Two runs that differ in the draw only\<close>

text \<open>
  Two states are the same to the public when they agree on everything but the traitor
  and the result that depends on it; two events are the same but for the draw when they
  are equal, or are both a restart from the same socket.
\<close>

definition same_public :: "server \<Rightarrow> server \<Rightarrow> bool" where
  "same_public s1 s2 =
     (turn (gameState s1) = turn (gameState s2) \<and>
      playerLocation (gameState s1) = playerLocation (gameState s2) \<and>
      isAlive (gameState s1) = isAlive (gameState s2) \<and>
      conversation (gameState s1) = conversation (gameState s2) \<and>
      gameOver (gameState s1) = gameOver (gameState s2) \<and>
      timeRemaining (gameState s1) = timeRemaining (gameState s2) \<and>
      simulationSocket s1 = simulationSocket s2 \<and>
      gameTimer s1 = gameTimer s2 \<and>
      intervals s1 = intervals s2 \<and>
      next_interval s1 = next_interval s2 \<and>
      sockets s1 = sockets s2 \<and>
      exited s1 = exited s2)"

fun same_but_draw :: "event \<Rightarrow> event \<Rightarrow> bool" where
  "same_but_draw (RestartGame k u) (RestartGame k' u') = (k = k')"
| "same_but_draw e e' = (e = e')"

section \<open>Lemmas on the handlers\<close>




lemma ROLES_at_role: "valid_draw u \<Longrightarrow> ROLES_at \<lfloor>u * real (length ROLES)\<rfloor> \<in> JStr ` set ROLES"
proof -
  assume v: "valid_draw u"
  then have "0 \<le> u * 4" and "u * 4 < 4"
    by (simp_all add: valid_draw_def)
  then have "0 \<le> \<lfloor>u * 4\<rfloor>" and "\<lfloor>u * 4\<rfloor> < 4"
    by (simp_all add: floor_less_iff)
  then have "\<lfloor>u * 4\<rfloor> = 0 \<or> \<lfloor>u * 4\<rfloor> = 1 \<or> \<lfloor>u * 4\<rfloor> = 2 \<or> \<lfloor>u * 4\<rfloor> = 3" by linarith
  then show ?thesis using v
    by (auto simp: ROLES_at_def ROLES_def valid_draw_def)
qed

lemma clear_timer:
  "(if gameTimer s \<noteq> None then (clearInterval (gameTimer s) s)\<lparr>gameTimer := None\<rparr> else s)
     = s\<lparr>intervals := intervals s - set_option (gameTimer s), gameTimer := None\<rparr>"
  by (cases "gameTimer s") (simp_all add: clearInterval_def)

lemma startGame_state:
  "fst (startGame u s) =
     s\<lparr>gameState := (gameState s)
          \<lparr>turn := 0, playerLocation := ''bridge'', isAlive := True,
           conversation := [], gameOver := False, timeRemaining := 600,
           gameResult := JNull, traitor := ROLES_at \<lfloor>u * real (length ROLES)\<rfloor>\<rparr>,
       intervals := insert (next_interval s) (intervals s - set_option (gameTimer s)),
       next_interval := Suc (next_interval s),
       gameTimer := Some (next_interval s)\<rparr>"
  unfolding startGame_def clear_timer by (simp add: setInterval_def Let_def)

lemma clearInterval_eq:
  "clearInterval h s = s\<lparr>intervals := intervals s - set_option h\<rparr>"
  by (cases h) (simp_all add: clearInterval_def)

lemma startGame_out:
  "snd (startGame u s) =
     ConsoleLog (GAME_START (ROLES_at \<lfloor>u * real (length ROLES)\<rfloor>)) #
     (case simulationSocket s of
        Some c \<Rightarrow> [SocketEmit c ''secret_traitor_info'' [ROLES_at \<lfloor>u * real (length ROLES)\<rfloor>]]
      | None \<Rightarrow> [])"
  unfolding startGame_def clear_timer by (simp add: setInterval_def Let_def)

lemma callback_over:
  "gameOver (gameState s) \<Longrightarrow>
   gameTimer_callback s = (s\<lparr>intervals := intervals s - set_option (gameTimer s)\<rparr>, [])"
  by (simp add: gameTimer_callback_def clearInterval_eq)

lemma callback_running:
  "\<not> gameOver (gameState s) \<Longrightarrow> 1 < timeRemaining (gameState s) \<Longrightarrow>
   gameTimer_callback s =
     (s\<lparr>gameState := (gameState s)\<lparr>timeRemaining := timeRemaining (gameState s) - 1\<rparr>\<rparr>,
      [IoEmit ''time update'' [JObj [(''timeRemaining'', JNum (timeRemaining (gameState s) - 1))]]])"
  by (simp add: gameTimer_callback_def Let_def max_def)

lemma callback_timeout:
  "\<not> gameOver (gameState s) \<Longrightarrow> timeRemaining (gameState s) \<le> 1 \<Longrightarrow>
   gameTimer_callback s =
     (s\<lparr>gameState := (gameState s)
          \<lparr>timeRemaining := 0, gameOver := True, gameResult := JStr ''defeat''\<rparr>,
        intervals := intervals s - set_option (gameTimer s)\<rparr>,
      [IoEmit ''time update'' [JObj [(''timeRemaining'', JNum 0)]],
       IoEmit ''chat message'' [JStr timeoutChat],
       IoEmit ''game_over''
         [JObj [(''result'', JStr ''defeat''), (''message'', JStr timeoutMessage),
                (''realTraitor'', traitor (gameState s))]],
       ConsoleLog GAME_OVER_TIME])"
  by (simp add: gameTimer_callback_def Let_def max_def clearInterval_eq)

lemma uncaught_Inr [simp]: "uncaught s (Inr returned) = returned"
  by (simp add: uncaught_def)

lemma uncaught_Inl [simp]:
  "uncaught s (Inl err) = (s\<lparr>exited := True, intervals := {}, sockets := {}\<rparr>, [Uncaught err])"
  by (simp add: uncaught_def)

lemma accuse_over:
  "gameOver (gameState s) \<Longrightarrow>
   on_accuse k d s = Inr (s, [ConsoleLog ACCUSE_GAME_ALREADY_OVER])"
  by (simp add: on_accuse_def)

lemma accuse_throws:
  "\<not> gameOver (gameState s) \<Longrightarrow> on_accuse k NoPayload s = Inl TypeError"
  by (simp add: on_accuse_def)

lemma accuse_missing:
  "\<not> gameOver (gameState s) \<Longrightarrow> n = None \<or> n = Some [] \<Longrightarrow>
   on_accuse k (Payload n) s = Inr (s, [ConsoleError ACCUSE_NO_TARGETNAME])"
  by (auto simp: on_accuse_def)

lemma accuse_resolution:
  "\<not> gameOver (gameState s) \<Longrightarrow> n \<noteq> [] \<Longrightarrow>
   on_accuse k (Payload (Some n)) s =
     Inr (if js_or (js_get nameMapping n) (JStr n) = traitor (gameState s)
      then
        (s\<lparr>intervals := intervals s - set_option (gameTimer s), gameTimer := None,
           gameState := (gameState s)\<lparr>gameOver := True, gameResult := JStr ''victory''\<rparr>\<rparr>,
         [ConsoleLog (ACCUSE n),
          IoEmit ''chat message'' [JStr (''[SYSTEM] '' @ n @ executed_suffix)],
          IoEmit ''game_over''
            [JObj [(''result'', JStr ''victory''), (''message'', JStr victoryMessage),
                   (''realTraitor'', traitor (gameState s))]],
          ConsoleLog (VICTORY n (traitor (gameState s)))])
      else
        (s\<lparr>intervals := intervals s - set_option (gameTimer s), gameTimer := None,
           gameState := (gameState s)\<lparr>gameOver := True, gameResult := JStr ''defeat''\<rparr>\<rparr>,
         [ConsoleLog (ACCUSE n),
          IoEmit ''chat message'' [JStr (''[SYSTEM] '' @ n @ executed_suffix)],
          IoEmit ''game_over''
            [JObj [(''result'', JStr ''defeat''), (''message'', JStr defeatMessage),
                   (''realTraitor'', traitor (gameState s))]],
          ConsoleLog (DEFEAT n (traitor (gameState s)))]))"
  unfolding on_accuse_def clear_timer by (simp add: Let_def)

lemma nameMapping_label_table: "map_of nameMapping n = map_option JStr (map_of label_table n)"
  by (simp add: nameMapping_def label_table_def)

lemma label_table_nonempty: "map_of label_table n = Some r \<Longrightarrow> r \<noteq> []"
  by (auto simp: label_table_def split: if_splits)

lemma prototype_not_role: "n \<in> set Object_prototype \<Longrightarrow> n \<notin> set ROLES"
  by (auto simp: Object_prototype_def ROLES_def)

lemma accused_canonical:
  assumes "n \<noteq> []" and "r \<in> set ROLES"
  shows "(js_or (js_get nameMapping n) (JStr n) = JStr r) = (canonical_role n = r)"
proof (cases "map_of label_table n")
  case None
  show ?thesis
  proof (cases "n \<in> set Object_prototype")
    case True
    then have "n \<noteq> r" using assms(2) prototype_not_role by blast
    then show ?thesis using None True
      by (simp add: js_get_def js_or_def canonical_role_def nameMapping_label_table)
  next
    case False
    then show ?thesis using None assms(1)
      by (simp add: js_get_def js_or_def canonical_role_def nameMapping_label_table)
  qed
next
  case (Some c)
  then show ?thesis using label_table_nonempty [OF Some]
    by (simp add: js_get_def js_or_def canonical_role_def nameMapping_label_table)
qed

lemma action_over: "gameOver (gameState s) \<Longrightarrow> on_action k d s = Inr (s, [])"
  by (simp add: on_action_def)

lemma action_throws:
  "\<not> gameOver (gameState s) \<Longrightarrow> on_action k NoPayload s = Inl TypeError"
  by (simp add: on_action_def)

lemma ai_over: "gameOver (gameState s) \<Longrightarrow> on_ai_response k d s = Inr (s, [])"
  by (simp add: on_ai_response_def)

lemma ai_throws:
  "\<not> gameOver (gameState s) \<Longrightarrow> on_ai_response k NoPayload s = Inl TypeError"
  by (simp add: on_ai_response_def)

lemma ai_running:
  "\<not> gameOver (gameState s) \<Longrightarrow>
   on_ai_response k (Payload (m, cs)) s =
     Inr (s\<lparr>gameState := (gameState s)
          \<lparr>conversation := conversation (gameState s) @
             [JObj [(''speaker'', JStr ''AI''), (''text'', field m)]]\<rparr>\<rparr>,
      [ConsoleLog (AI (field m)),
       IoEmit ''chat message'' [field m],
       IoEmit ''game response''
         [JObj [(''message'', field m),
                (''choices'',
                   case cs of
                     None \<Rightarrow> JArr [JStr choice_continue, JStr choice_wait, JStr choice_confirm]
                   | Some c \<Rightarrow> JArr (map JStr c))]]])"
  by (cases cs) (simp_all add: on_ai_response_def js_or_def defaultChoices_def)

lemma last_entries_drop: "last_entries n xs = drop (length xs - n) xs"
  by (simp add: last_entries_def rev_take)


lemma effective_action_or:
  "js_or (field a) v = (if supplied a then field a else v)"
  by (cases a) (simp_all add: js_or_def)

lemma plus_one_range: "0 \<le> n \<Longrightarrow> n \<le> 2 ^ 53 \<Longrightarrow> 0 \<le> plus_one n \<and> plus_one n \<le> 2 ^ 53"
  by (simp add: plus_one_def)

lemma action_running:
  assumes "\<not> gameOver (gameState s)"
  shows "on_action k (Payload (m, a)) s =
     Inr (s\<lparr>gameState := (gameState s)
          \<lparr>conversation := conversation (gameState s) @
             (if supplied m
              then [JObj [(''speaker'', JStr speaker_player), (''text'', field m)]] else []),
           turn := plus_one (turn (gameState s))\<rparr>\<rparr>,
      (if supplied m
       then [ConsoleLog (PLAYER (case m of Some t \<Rightarrow> t | None \<Rightarrow> [])),
             IoEmit ''chat message''
               [JStr (''> '' @ (case m of Some t \<Rightarrow> t | None \<Rightarrow> []))]]
       else []) @
      [ConsoleLog (TURN (plus_one (turn (gameState s))) (timeRemaining (gameState s)))] @
      (case simulationSocket s of
         Some c \<Rightarrow>
           [SocketEmit c ''generateResponse''
              [JObj [(''turn'', JNum (plus_one (turn (gameState s)))),
                     (''playerAction'', effective_action a m),
                     (''conversation'',
                        JArr (last_entries 20
                                (conversation (gameState s) @
                                 (if supplied m
                                  then [JObj [(''speaker'', JStr speaker_player),
                                              (''text'', field m)]]
                                  else [])))),
                     (''gameState'',
                        JObj [(''location'', JStr (playerLocation (gameState s))),
                              (''isAlive'', JBool (isAlive (gameState s))),
                              (''timeRemaining'', JNum (timeRemaining (gameState s)))])]]]
       | None \<Rightarrow>
           [IoEmit ''game response''
              [JObj [(''message'', JStr noSimulationMessage),
                     (''choices'',
                        JArr [JStr choice_retry, JStr choice_wait,
                              JStr choice_check_system])]]]))"
proof (cases "supplied m")
  case True
  then obtain t where t: "m = Some t" "t \<noteq> []" by (cases m) auto
  show ?thesis using assms t
    by (cases "simulationSocket s")
       (simp_all add: on_action_def Let_def effective_action_or effective_action_def
          last_entries_drop degradedChoices_def)
next
  case False
  then have "m = None \<or> m = Some []" by (cases m) auto
  then show ?thesis using assms
    by (cases "simulationSocket s")
       (auto simp: on_action_def Let_def effective_action_or effective_action_def
          last_entries_drop degradedChoices_def)
qed


lemma exit_invariant:
  "invariant s \<Longrightarrow> invariant (s\<lparr>exited := True, intervals := {}, sockets := {}\<rparr>)"
  by (simp add: invariant_def)

lemma startGame_invariant:
  assumes "intervals s \<subseteq> set_option (gameTimer s)" and "\<not> exited s" and "valid_draw u"
  shows "invariant (fst (startGame u s))"
proof -
  have "intervals s - set_option (gameTimer s) = {}" using assms(1) by blast
  then show ?thesis using assms(2) ROLES_at_role [OF assms(3)]
    by (auto simp: startGame_state invariant_def)
qed

lemma callback_invariant:
  assumes "invariant s"
  shows "invariant (fst (gameTimer_callback s))"
proof -
  have sub: "intervals s - set_option (gameTimer s) = {}"
    using assms by (auto simp: invariant_def)
  consider "gameOver (gameState s)"
    | "\<not> gameOver (gameState s)" "timeRemaining (gameState s) \<le> 1"
    | "\<not> gameOver (gameState s)" "1 < timeRemaining (gameState s)"
    by linarith
  then show ?thesis
  proof cases
    case 1
    then show ?thesis using assms sub by (auto simp: callback_over invariant_def)
  next
    case 2
    then show ?thesis using assms sub by (auto simp: callback_timeout invariant_def)
  next
    case 3
    then show ?thesis using assms by (simp add: callback_running invariant_def)
  qed
qed

lemma action_invariant:
  assumes "invariant s"
  shows "invariant (fst (uncaught s (on_action k d s)))"
proof (cases "gameOver (gameState s)")
  case True
  then show ?thesis using assms by (simp add: action_over)
next
  case False
  show ?thesis
  proof (cases d)
    case NoPayload
    then show ?thesis using False exit_invariant [OF assms] by (simp add: action_throws)
  next
    case (Payload fields)
    obtain m a where "fields = (m, a)" by (cases fields)
    then show ?thesis using Payload False assms plus_one_range [of "turn (gameState s)"]
      by (simp add: action_running invariant_def)
  qed
qed

lemma accuse_invariant:
  assumes "invariant s"
  shows "invariant (fst (uncaught s (on_accuse k d s)))"
proof -
  have sub: "intervals s - set_option (gameTimer s) = {}"
    using assms by (auto simp: invariant_def)
  consider "gameOver (gameState s)"
    | "\<not> gameOver (gameState s)" "d = NoPayload"
    | n where "\<not> gameOver (gameState s)" "d = Payload n" "n = None \<or> n = Some []"
    | t where "\<not> gameOver (gameState s)" "d = Payload (Some t)" "t \<noteq> []"
  proof (cases d)
    case NoPayload
    then show ?thesis using that by blast
  next
    case (Payload n)
    then show ?thesis using that by (cases n) auto
  qed
  then show ?thesis
  proof cases
    case 1
    then show ?thesis using assms by (simp add: accuse_over)
  next
    case 2
    then show ?thesis using exit_invariant [OF assms] by (simp add: accuse_throws)
  next
    case 3
    then show ?thesis using assms by (simp add: accuse_missing)
  next
    case 4
    then show ?thesis using assms sub by (auto simp: accuse_resolution invariant_def)
  qed
qed

lemma ai_invariant:
  assumes "invariant s"
  shows "invariant (fst (uncaught s (on_ai_response k d s)))"
proof (cases "gameOver (gameState s)")
  case True
  then show ?thesis using assms by (simp add: ai_over)
next
  case False
  show ?thesis
  proof (cases d)
    case NoPayload
    then show ?thesis using False exit_invariant [OF assms] by (simp add: ai_throws)
  next
    case (Payload fields)
    obtain m cs where "fields = (m, cs)" by (cases fields)
    then show ?thesis using Payload False assms
      by (simp add: ai_running invariant_def)
  qed
qed

lemma restart_state: "fst (on_restart_game k u s) = fst (startGame u s)"
  by (simp add: on_restart_game_def Let_def split: prod.splits)

lemma step_invariant:
  assumes "invariant s" and "valid_event e"
  shows "invariant (fst (step s e))"
proof (cases e)
  case (Tick h)
  then show ?thesis using assms callback_invariant [of s] by (simp add: step_def)
next
  case (Connection k)
  then show ?thesis using assms by (auto simp: step_def invariant_def)
next
  case (SimulationReady k)
  then show ?thesis using assms
    by (auto simp: step_def invariant_def on_simulation_ready_def Let_def)
next
  case (Action k d)
  then show ?thesis using assms action_invariant [of s] by (simp add: step_def)
next
  case (Accuse k d)
  then show ?thesis using assms accuse_invariant [of s] by (simp add: step_def)
next
  case (AiResponse k d)
  then show ?thesis using assms ai_invariant [of s] by (simp add: step_def)
next
  case (RequestInitialState k)
  then show ?thesis using assms by (simp add: step_def on_request_initial_state_def)
next
  case (RestartGame k u)
  show ?thesis
  proof (cases "k \<in> sockets s")
    case True
    then have "\<not> exited s" using assms(1) by (auto simp: invariant_def)
    then show ?thesis using True RestartGame assms startGame_invariant [of s u]
      by (simp add: step_def restart_state invariant_def)
  next
    case False
    then show ?thesis using RestartGame assms by (simp add: step_def)
  qed
next
  case (Disconnect k)
  then show ?thesis using assms
    by (auto simp: step_def invariant_def on_disconnect_def)
qed

lemma boot_invariant: "valid_draw u \<Longrightarrow> invariant (fst (boot u))"
  using startGame_invariant [of initialState u] by (simp add: boot_def initialState_def)

lemma reachable_invariant: "reachable s \<Longrightarrow> invariant s"
  by (induction rule: reachable.induct) (simp_all add: boot_invariant step_invariant)

lemma boot_half:
  "fst (boot (1/2)) =
     \<lparr>gameState =
        \<lparr>turn = 0, playerLocation = ''bridge'', isAlive = True, conversation = [],
         gameOver = False, traitor = JStr ''Doctor'', timeRemaining = 600, gameResult = JNull\<rparr>,
      simulationSocket = None, gameTimer = Some 0, intervals = {0}, next_interval = Suc 0,
      sockets = {}, exited = False\<rparr>"
  by (simp add: boot_def startGame_state initialState_def ROLES_at_def ROLES_def)

lemma run_Cons_fst: "fst (run s (e # es)) = fst (run (fst (step s e)) es)"
  by (simp add: Let_def split: prod.splits)

lemma run_Cons_snd: "snd (run s (e # es)) = snd (step s e) @ snd (run (fst (step s e)) es)"
  by (simp add: Let_def split: prod.splits)

lemma step_frozen:
  assumes "gameOver (gameState s)" and "\<not> is_restart e"
  shows "gameState (fst (step s e)) = gameState s"
  using assms
  by (cases e)
     (simp_all add: step_def callback_over action_over accuse_over ai_over
        on_simulation_ready_def on_request_initial_state_def on_disconnect_def Let_def)

lemma step_silent:
  assumes "gameOver (gameState s)" and "\<not> is_restart e"
  shows "broadcasts (snd (step s e)) = []"
  using assms
  by (cases e)
     (simp_all add: step_def callback_over action_over accuse_over ai_over broadcasts_def
        on_simulation_ready_def on_request_initial_state_def on_disconnect_def Let_def)

lemma run_frozen:
  "gameOver (gameState s) \<Longrightarrow> \<forall>e \<in> set evs. \<not> is_restart e \<Longrightarrow>
   gameState (fst (run s evs)) = gameState s"
proof (induction evs arbitrary: s)
  case Nil
  then show ?case by simp
next
  case (Cons e es)
  have g: "gameState (fst (step s e)) = gameState s"
    using Cons.prems by (simp add: step_frozen)
  then have "gameState (fst (run (fst (step s e)) es)) = gameState (fst (step s e))"
    using Cons.prems by (intro Cons.IH) simp_all
  then show ?case using g by (simp add: run_Cons_fst del: run.simps(2))
qed

lemma run_silent:
  "gameOver (gameState s) \<Longrightarrow> \<forall>e \<in> set evs. \<not> is_restart e \<Longrightarrow>
   broadcasts (snd (run s evs)) = []"
proof (induction evs arbitrary: s)
  case Nil
  then show ?case by (simp add: broadcasts_def)
next
  case (Cons e es)
  have g: "gameState (fst (step s e)) = gameState s"
    using Cons.prems by (simp add: step_frozen)
  then have "broadcasts (snd (run (fst (step s e)) es)) = []"
    using Cons.prems by (intro Cons.IH) simp_all
  moreover have "broadcasts (snd (step s e)) = []"
    using Cons.prems by (simp add: step_silent)
  ultimately show ?case by (simp add: run_Cons_snd broadcasts_def del: run.simps(2))
qed

lemma two_peers_eq:
  "two_peers =
     \<lparr>gameState =
        \<lparr>turn = 0, playerLocation = ''bridge'', isAlive = True, conversation = [],
         gameOver = False, traitor = JStr ''Doctor'', timeRemaining = 600, gameResult = JNull\<rparr>,
      simulationSocket = Some 1, gameTimer = Some 0, intervals = {0}, next_interval = Suc 0,
      sockets = {1, 2}, exited = False\<rparr>"
  by (simp add: two_peers_def run_Cons_fst boot_half step_def on_simulation_ready_def Let_def
      insert_commute del: run.simps(2))

lemma two_peers_reachable: "reachable two_peers"
proof -
  have "reachable (fst (boot (1/2)))"
    by (rule reachable_boot) (simp add: valid_draw_def)
  then have "reachable (fst (step (fst (boot (1/2))) (Connection 1)))"
    by (rule reachable_step) simp
  then have "reachable (fst (step (fst (step (fst (boot (1/2))) (Connection 1))) (SimulationReady 1)))"
    by (rule reachable_step) simp
  then have "reachable (fst (step (fst (step (fst (step (fst (boot (1/2))) (Connection 1))) (SimulationReady 1))) (Connection 2)))"
    by (rule reachable_step) simp
  then show ?thesis by (simp add: two_peers_def run_Cons_fst del: run.simps(2))
qed

lemma doctor_canonical: "canonical_role label_doctor = ''Doctor''"
  by (simp add: canonical_role_def label_table_def label_captain_def label_engineer_def
      label_doctor_def label_pilot_def)

lemma ended_session_eq:
  "ended_session =
     \<lparr>gameState =
        \<lparr>turn = 0, playerLocation = ''bridge'', isAlive = True, conversation = [],
         gameOver = True, traitor = JStr ''Doctor'', timeRemaining = 600,
         gameResult = JStr ''victory''\<rparr>,
      simulationSocket = Some 1, gameTimer = None, intervals = {}, next_interval = Suc 0,
      sockets = {1, 2}, exited = False\<rparr>"
proof -
  have "js_or (js_get nameMapping label_doctor) (JStr label_doctor) = JStr ''Doctor''"
    using accused_canonical [of label_doctor "''Doctor''"] doctor_canonical
    by (simp add: label_doctor_def ROLES_def)
  then show ?thesis
    by (simp add: ended_session_def step_def accuse_resolution two_peers_eq label_doctor_def)
qed

lemma messages_differ: "defeatMessage \<noteq> timeoutMessage"
  by (simp add: defeatMessage_def timeoutMessage_def)

lemma request_over:
  "gameOver (gameState s) \<Longrightarrow>
   snd (on_request_initial_state k s) =
     [SocketEmit k ''time update'' [JObj [(''timeRemaining'', JNum (timeRemaining (gameState s)))]],
      SocketEmit k ''game_over''
        [JObj [(''result'', gameResult (gameState s)),
               (''message'',
                  if gameResult (gameState s) = JStr ''victory''
                  then JStr victoryMessage else JStr defeatMessage)]]]"
  by (simp add: on_request_initial_state_def)

lemma action_out_secret: "secret_sends (snd (uncaught s (on_action k d s))) = []"
proof (cases "gameOver (gameState s)")
  case True
  then show ?thesis by (simp add: action_over)
next
  case False
  show ?thesis
  proof (cases d)
    case NoPayload
    then show ?thesis using False by (simp add: action_throws)
  next
    case (Payload fields)
    obtain m a where "fields = (m, a)" by (cases fields)
    then show ?thesis using Payload False
      by (cases "simulationSocket s") (simp_all add: action_running)
  qed
qed

lemma accuse_out_secret: "secret_sends (snd (uncaught s (on_accuse k d s))) = []"
proof -
  consider "gameOver (gameState s)"
    | "\<not> gameOver (gameState s)" "d = NoPayload"
    | n where "\<not> gameOver (gameState s)" "d = Payload n" "n = None \<or> n = Some []"
    | t where "\<not> gameOver (gameState s)" "d = Payload (Some t)" "t \<noteq> []"
  proof (cases d)
    case NoPayload
    then show ?thesis using that by blast
  next
    case (Payload n)
    then show ?thesis using that by (cases n) auto
  qed
  then show ?thesis
    by cases (simp_all add: accuse_over accuse_throws accuse_missing accuse_resolution)
qed

lemma callback_out_secret: "secret_sends (snd (gameTimer_callback s)) = []"
  by (simp add: gameTimer_callback_def Let_def)

lemma ai_out_secret: "secret_sends (snd (uncaught s (on_ai_response k d s))) = []"
proof (cases "gameOver (gameState s)")
  case True
  then show ?thesis by (simp add: ai_over)
next
  case False
  show ?thesis
  proof (cases d)
    case NoPayload
    then show ?thesis using False by (simp add: ai_throws)
  next
    case (Payload fields)
    obtain m cs where "fields = (m, cs)" by (cases fields)
    then show ?thesis using Payload False by (simp add: ai_running)
  qed
qed

lemma request_out_secret: "secret_sends (snd (on_request_initial_state k s)) = []"
  by (simp add: on_request_initial_state_def)

lemma restart_out:
  "snd (on_restart_game k u s) =
     snd (startGame u s) @ [IoEmit ''system_reset'' []] @
     (case simulationSocket s of
        Some c \<Rightarrow> [SocketEmit c ''secret_traitor_info'' [ROLES_at \<lfloor>u * real (length ROLES)\<rfloor>]]
      | None \<Rightarrow> []) @
     [ConsoleLog (GAME_RESTART (ROLES_at \<lfloor>u * real (length ROLES)\<rfloor>))]"
proof -
  obtain s1 o1 where st: "startGame u s = (s1, o1)"
    by (cases "startGame u s")
  then have eq: "s1 = fst (startGame u s)" and out: "o1 = snd (startGame u s)"
    by simp_all
  have "simulationSocket s1 = simulationSocket s"
    and "traitor (gameState s1) = ROLES_at \<lfloor>u * real (length ROLES)\<rfloor>"
    unfolding eq by (simp_all add: startGame_state)
  moreover have "snd (on_restart_game k u s) =
      o1 @ [IoEmit ''system_reset'' []] @
      (case simulationSocket s1 of
         Some c \<Rightarrow> [SocketEmit c ''secret_traitor_info'' [traitor (gameState s1)]]
       | None \<Rightarrow> []) @
      [ConsoleLog (GAME_RESTART (traitor (gameState s1)))]"
    by (simp add: on_restart_game_def st)
  ultimately show ?thesis by (simp add: out split: option.splits)
qed

lemma restart_out_secret:
  "secret_sends (snd (on_restart_game k u s)) =
     (case simulationSocket s of
        Some c \<Rightarrow> [(Some c, [ROLES_at \<lfloor>u * real (length ROLES)\<rfloor>]),
                   (Some c, [ROLES_at \<lfloor>u * real (length ROLES)\<rfloor>])]
      | None \<Rightarrow> [])"
  by (cases "simulationSocket s") (simp_all add: restart_out startGame_out)

lemma role_truthy: "v \<in> JStr ` set ROLES \<Longrightarrow> truthy v"
  by (auto simp: ROLES_def)


lemma frozen_latchings:
  "gameOver (gameState s) \<Longrightarrow> \<forall>e \<in> set evs. \<not> is_restart e \<Longrightarrow>
   latchings s evs = 0 \<and> unlatchings s evs = 0"
proof (induction evs arbitrary: s)
  case Nil
  then show ?case by simp
next
  case (Cons e es)
  have g: "gameState (fst (step s e)) = gameState s"
    using Cons.prems by (simp add: step_frozen)
  then have "latchings (fst (step s e)) es = 0 \<and> unlatchings (fst (step s e)) es = 0"
    using Cons.prems by (intro Cons.IH) simp_all
  then show ?case using g Cons.prems(1) by simp
qed

lemma latchings_le_one:
  "\<forall>e \<in> set evs. \<not> is_restart e \<Longrightarrow> latchings s evs \<le> 1 \<and> unlatchings s evs = 0"
proof (induction evs arbitrary: s)
  case Nil
  then show ?case by simp
next
  case (Cons e es)
  have rest: "\<forall>x \<in> set es. \<not> is_restart x" and e: "\<not> is_restart e"
    using Cons.prems by simp_all
  show ?case
  proof (cases "gameOver (gameState s)")
    case True
    then show ?thesis using frozen_latchings [OF True Cons.prems] by simp
  next
    case False
    show ?thesis
    proof (cases "gameOver (gameState (fst (step s e)))")
      case True
      then show ?thesis using frozen_latchings [OF True rest] False by simp
    next
      case over: False
      then show ?thesis using Cons.IH [OF rest, of "fst (step s e)"] False by simp
    qed
  qed
qed

lemma run_ticks_over:
  "invariant s \<Longrightarrow> gameOver (gameState s) \<Longrightarrow> run s (map Tick hs) = (s, [])"
proof (induction hs)
  case Nil
  then show ?case by simp
next
  case (Cons h hs)
  have "intervals s = {}" using Cons.prems by (simp add: invariant_def)
  then have "step s (Tick h) = (s, [])" by (simp add: step_def)
  then show ?case using Cons by simp
qed

lemma callback_resolutions:
  "resolutions (snd (gameTimer_callback s)) =
     (if \<not> gameOver (gameState s) \<and> gameOver (gameState (fst (gameTimer_callback s)))
      then 1 else 0)"
proof -
  consider "gameOver (gameState s)"
    | "\<not> gameOver (gameState s)" "timeRemaining (gameState s) \<le> 1"
    | "\<not> gameOver (gameState s)" "1 < timeRemaining (gameState s)"
    by linarith
  then show ?thesis
    by cases (simp_all add: callback_over callback_timeout callback_running resolutions_def)
qed

lemma accuse_resolutions:
  "resolutions (snd (uncaught s (on_accuse k d s))) =
     (if \<not> gameOver (gameState s) \<and>
         gameOver (gameState (fst (uncaught s (on_accuse k d s))))
      then 1 else 0)"
proof -
  consider "gameOver (gameState s)"
    | "\<not> gameOver (gameState s)" "d = NoPayload"
    | n where "\<not> gameOver (gameState s)" "d = Payload n" "n = None \<or> n = Some []"
    | t where "\<not> gameOver (gameState s)" "d = Payload (Some t)" "t \<noteq> []"
  proof (cases d)
    case NoPayload
    then show ?thesis using that by blast
  next
    case (Payload n)
    then show ?thesis using that by (cases n) auto
  qed
  then show ?thesis
    by cases
       (simp_all add: accuse_over accuse_throws accuse_missing accuse_resolution
          resolutions_def)
qed

lemma action_resolutions:
  "resolutions (snd (uncaught s (on_action k d s))) = 0 \<and>
   gameOver (gameState (fst (uncaught s (on_action k d s)))) = gameOver (gameState s)"
proof (cases "gameOver (gameState s)")
  case True
  then show ?thesis by (simp add: action_over resolutions_def)
next
  case False
  show ?thesis
  proof (cases d)
    case NoPayload
    then show ?thesis using False by (simp add: action_throws resolutions_def)
  next
    case (Payload fields)
    obtain m a where "fields = (m, a)" by (cases fields)
    then show ?thesis using Payload False
      by (cases "simulationSocket s") (simp_all add: action_running resolutions_def)
  qed
qed

lemma ai_resolutions:
  "resolutions (snd (uncaught s (on_ai_response k d s))) = 0 \<and>
   gameOver (gameState (fst (uncaught s (on_ai_response k d s)))) = gameOver (gameState s)"
proof (cases "gameOver (gameState s)")
  case True
  then show ?thesis by (simp add: ai_over resolutions_def)
next
  case False
  show ?thesis
  proof (cases d)
    case NoPayload
    then show ?thesis using False by (simp add: ai_throws resolutions_def)
  next
    case (Payload fields)
    obtain m cs where "fields = (m, cs)" by (cases fields)
    then show ?thesis using Payload False by (simp add: ai_running resolutions_def)
  qed
qed

lemma restart_resolutions:
  "resolutions (snd (on_restart_game k u s)) = 0 \<and>
   \<not> gameOver (gameState (fst (on_restart_game k u s)))"
  by (cases "simulationSocket s")
     (simp_all add: restart_out startGame_out restart_state startGame_state resolutions_def)

lemma step_resolutions:
  "resolutions (snd (step s e)) =
     (if \<not> gameOver (gameState s) \<and> gameOver (gameState (fst (step s e))) then 1 else 0)"
proof (cases e)
  case (Tick h)
  then show ?thesis using callback_resolutions [of s]
    by (simp add: step_def) (simp add: resolutions_def)
next
  case (Action k d)
  then show ?thesis using action_resolutions [of s k d]
    by (simp add: step_def) (simp add: resolutions_def)
next
  case (Accuse k d)
  then show ?thesis using accuse_resolutions [of s k d]
    by (simp add: step_def) (simp add: resolutions_def)
next
  case (AiResponse k d)
  then show ?thesis using ai_resolutions [of s k d]
    by (simp add: step_def) (simp add: resolutions_def)
next
  case (RestartGame k u)
  then show ?thesis using restart_resolutions [of k u s]
    by (simp add: step_def) (simp add: resolutions_def)
qed (simp_all add: step_def resolutions_def on_simulation_ready_def
      on_request_initial_state_def on_disconnect_def Let_def)

lemma run_resolutions: "resolutions (snd (run s evs)) = latchings s evs"
proof (induction evs arbitrary: s)
  case Nil
  then show ?case by (simp add: resolutions_def)
next
  case (Cons e es)
  have "resolutions (snd (run s (e # es))) =
          resolutions (snd (step s e)) + resolutions (snd (run (fst (step s e)) es))"
    by (simp add: run_Cons_snd resolutions_def del: run.simps(2))
  then show ?case using Cons.IH [of "fst (step s e)"] step_resolutions [of s e] by simp
qed

lemma same_publicD:
  assumes "same_public s1 s2"
  shows "turn (gameState s2) = turn (gameState s1)"
    and "playerLocation (gameState s2) = playerLocation (gameState s1)"
    and "isAlive (gameState s2) = isAlive (gameState s1)"
    and "conversation (gameState s2) = conversation (gameState s1)"
    and "gameOver (gameState s2) = gameOver (gameState s1)"
    and "timeRemaining (gameState s2) = timeRemaining (gameState s1)"
    and "simulationSocket s2 = simulationSocket s1"
    and "gameTimer s2 = gameTimer s1"
    and "intervals s2 = intervals s1"
    and "next_interval s2 = next_interval s1"
    and "sockets s2 = sockets s1"
    and "exited s2 = exited s1"
  using assms by (simp_all add: same_public_def)

lemma callback_unwinding:
  assumes "same_public s1 s2"
  shows "same_public (fst (gameTimer_callback s1)) (fst (gameTimer_callback s2)) \<and>
         public_before_end (snd (gameTimer_callback s1)) =
         public_before_end (snd (gameTimer_callback s2))"
proof -
  note eqs = same_publicD [OF assms]
  consider "gameOver (gameState s1)"
    | "\<not> gameOver (gameState s1)" "timeRemaining (gameState s1) \<le> 1"
    | "\<not> gameOver (gameState s1)" "1 < timeRemaining (gameState s1)"
    by linarith
  then show ?thesis
  proof cases
    case 1
    then show ?thesis
      by (simp add: callback_over eqs same_public_def public_before_end_def)
  next
    case 2
    then show ?thesis
      by (simp add: callback_timeout eqs same_public_def public_before_end_def)
  next
    case 3
    then show ?thesis
      by (simp add: callback_running eqs same_public_def public_before_end_def)
  qed
qed

lemma exit_unwinding:
  assumes "same_public s1 s2"
  shows "same_public (s1\<lparr>exited := True, intervals := {}, sockets := {}\<rparr>)
           (s2\<lparr>exited := True, intervals := {}, sockets := {}\<rparr>)"
  using assms by (simp add: same_public_def)

lemma accuse_unwinding:
  assumes "same_public s1 s2"
  shows "same_public (fst (uncaught s1 (on_accuse k d s1))) (fst (uncaught s2 (on_accuse k d s2))) \<and>
         public_before_end (snd (uncaught s1 (on_accuse k d s1))) =
         public_before_end (snd (uncaught s2 (on_accuse k d s2)))"
proof -
  note eqs = same_publicD [OF assms]
  consider "gameOver (gameState s1)"
    | "\<not> gameOver (gameState s1)" "d = NoPayload"
    | n where "\<not> gameOver (gameState s1)" "d = Payload n" "n = None \<or> n = Some []"
    | t where "\<not> gameOver (gameState s1)" "d = Payload (Some t)" "t \<noteq> []"
  proof (cases d)
    case NoPayload
    then show ?thesis using that by blast
  next
    case (Payload n)
    then show ?thesis using that by (cases n) auto
  qed
  then show ?thesis
  proof cases
    case 1
    then show ?thesis using assms
      by (simp add: accuse_over eqs public_before_end_def)
  next
    case 2
    then show ?thesis using exit_unwinding [OF assms]
      by (simp add: accuse_throws eqs public_before_end_def)
  next
    case 3
    then show ?thesis using assms
      by (simp add: accuse_missing eqs public_before_end_def)
  next
    case 4
    then show ?thesis
      by (simp add: accuse_resolution eqs same_public_def public_before_end_def)
  qed
qed

lemma action_unwinding:
  assumes "same_public s1 s2"
  shows "same_public (fst (uncaught s1 (on_action k d s1))) (fst (uncaught s2 (on_action k d s2))) \<and>
         public_before_end (snd (uncaught s1 (on_action k d s1))) =
         public_before_end (snd (uncaught s2 (on_action k d s2)))"
proof (cases "gameOver (gameState s1)")
  case True
  then show ?thesis using assms by (simp add: action_over same_publicD [OF assms])
next
  case False
  note eqs = same_publicD [OF assms]
  have running: "\<not> gameOver (gameState s2)" using False by (simp add: eqs)
  show ?thesis
  proof (cases d)
    case NoPayload
    then show ?thesis using False running exit_unwinding [OF assms]
      by (simp add: action_throws public_before_end_def)
  next
    case (Payload fields)
    obtain m a where "fields = (m, a)" by (cases fields)
    then show ?thesis using Payload False running
      by (cases "simulationSocket s1")
         (simp_all add: action_running eqs same_public_def public_before_end_def)
  qed
qed

lemma ai_unwinding:
  assumes "same_public s1 s2"
  shows "same_public (fst (uncaught s1 (on_ai_response k d s1)))
           (fst (uncaught s2 (on_ai_response k d s2))) \<and>
         public_before_end (snd (uncaught s1 (on_ai_response k d s1))) =
         public_before_end (snd (uncaught s2 (on_ai_response k d s2)))"
proof (cases "gameOver (gameState s1)")
  case True
  then show ?thesis using assms by (simp add: ai_over same_publicD [OF assms])
next
  case False
  note eqs = same_publicD [OF assms]
  have running: "\<not> gameOver (gameState s2)" using False by (simp add: eqs)
  show ?thesis
  proof (cases d)
    case NoPayload
    then show ?thesis using False running exit_unwinding [OF assms]
      by (simp add: ai_throws public_before_end_def)
  next
    case (Payload fields)
    obtain m cs where "fields = (m, cs)" by (cases fields)
    then show ?thesis using Payload False running
      by (simp add: ai_running eqs same_public_def public_before_end_def)
  qed
qed

lemma restart_unwinding:
  assumes "same_public s1 s2"
  shows "same_public (fst (on_restart_game k u1 s1)) (fst (on_restart_game k u2 s2)) \<and>
         public_before_end (snd (on_restart_game k u1 s1)) =
         public_before_end (snd (on_restart_game k u2 s2))"
  by (cases "simulationSocket s1")
     (simp_all add: restart_state startGame_state restart_out startGame_out
        same_publicD [OF assms] same_public_def public_before_end_def)

lemma step_unwinding:
  assumes "same_public s1 s2" and "same_but_draw e1 e2"
  shows "same_public (fst (step s1 e1)) (fst (step s2 e2)) \<and>
         public_before_end (snd (step s1 e1)) = public_before_end (snd (step s2 e2))"
proof -
  note eqs = same_publicD [OF assms(1)]
  show ?thesis
  proof (cases e1)
    case (Tick h)
    then have "e2 = Tick h" using assms(2) by simp
    then show ?thesis using Tick assms(1) callback_unwinding [OF assms(1)]
      by (simp add: step_def eqs public_before_end_def)
  next
    case (Connection k)
    then have "e2 = Connection k" using assms(2) by simp
    then show ?thesis using Connection
      by (simp add: step_def eqs same_public_def public_before_end_def)
  next
    case (SimulationReady k)
    then have "e2 = SimulationReady k" using assms(2) by simp
    then show ?thesis using SimulationReady assms(1)
      by (simp add: step_def on_simulation_ready_def Let_def eqs same_public_def
          public_before_end_def)
  next
    case (Action k d)
    then have "e2 = Action k d" using assms(2) by simp
    then show ?thesis using Action assms(1) action_unwinding [OF assms(1), of k d]
      by (simp add: step_def eqs public_before_end_def)
  next
    case (Accuse k d)
    then have "e2 = Accuse k d" using assms(2) by simp
    then show ?thesis using Accuse assms(1) accuse_unwinding [OF assms(1), of k d]
      by (simp add: step_def eqs public_before_end_def)
  next
    case (AiResponse k d)
    then have "e2 = AiResponse k d" using assms(2) by simp
    then show ?thesis using AiResponse assms(1) ai_unwinding [OF assms(1), of k d]
      by (simp add: step_def eqs public_before_end_def)
  next
    case (RequestInitialState k)
    then have "e2 = RequestInitialState k" using assms(2) by simp
    then show ?thesis using RequestInitialState assms(1)
      by (simp add: step_def on_request_initial_state_def eqs public_before_end_def)
  next
    case (RestartGame k u)
    then obtain u' where "e2 = RestartGame k u'" using assms(2) by (cases e2) simp_all
    then show ?thesis
      using RestartGame assms(1) restart_unwinding [OF assms(1), of k u u']
      by (simp add: step_def eqs public_before_end_def)
  next
    case (Disconnect k)
    then have "e2 = Disconnect k" using assms(2) by simp
    then show ?thesis using Disconnect
      by (simp add: step_def on_disconnect_def eqs same_public_def public_before_end_def)
  qed
qed

lemma run_unwinding:
  "list_all2 same_but_draw evs1 evs2 \<Longrightarrow> same_public s1 s2 \<Longrightarrow>
   same_public (fst (run s1 evs1)) (fst (run s2 evs2)) \<and>
   public_before_end (snd (run s1 evs1)) = public_before_end (snd (run s2 evs2))"
proof (induction evs1 evs2 arbitrary: s1 s2 rule: list_all2_induct)
  case Nil
  then show ?case by simp
next
  case (Cons e1 es1 e2 es2)
  have head: "same_public (fst (step s1 e1)) (fst (step s2 e2))"
    and out: "public_before_end (snd (step s1 e1)) = public_before_end (snd (step s2 e2))"
    using step_unwinding [OF Cons.prems Cons.hyps(1)] by simp_all
  have "same_public (fst (run (fst (step s1 e1)) es1)) (fst (run (fst (step s2 e2)) es2)) \<and>
        public_before_end (snd (run (fst (step s1 e1)) es1)) =
        public_before_end (snd (run (fst (step s2 e2)) es2))"
    using head by (rule Cons.IH)
  then show ?case using out
    by (simp add: run_Cons_fst run_Cons_snd public_before_end_def del: run.simps(2))
qed

lemma game_over_event_latches:
  assumes "x \<in> set (snd (step s e))" and "is_game_over_event x"
  shows "\<not> gameOver (gameState s) \<and> gameOver (gameState (fst (step s e)))"
proof (rule ccontr)
  assume "\<not> (\<not> gameOver (gameState s) \<and> gameOver (gameState (fst (step s e))))"
  then have "resolutions (snd (step s e)) = 0" by (simp add: step_resolutions)
  then have "filter is_game_over_event (snd (step s e)) = []"
    by (simp add: resolutions_def)
  then show False using assms by (simp add: filter_empty_conv)
qed

section \<open>The claims\<close>

subsection \<open>C1: the accusation\<close>




subsection \<open>C2: the tick of the timer\<close>

text \<open>
  Claim C2. A tick runs only for an armed interval, and in a state that the server
  reaches an interval is armed only while the game is not over. Such a tick sets the
  time to the old time minus 1, floored at 0: the new time is not negative and not
  above the old one. When the new time is 0 (the old time was at most 1) the tick
  performs the resolution of the timeout: after the \<open>time update\<close> it latches
  \<open>gameOver\<close>, sets the result to \<open>defeat\<close>, broadcasts the chat line of the timeout
  and one \<open>game_over\<close> event with the result, the narrative of the timeout and the real
  traitor, and clears the interval, so that none is armed; otherwise it only broadcasts
  the new time. After the resolution no tick runs again: any ticks that follow leave
  the whole state as it is and send nothing, and were the callback to run with the game
  over it would change no game state and send nothing. In a run without a restart the
  \<open>game_over\<close> event is broadcast at most once.
\<close>

theorem timer_tick_counts_down_and_times_out_once:
  assumes "reachable s" and "h \<in> intervals s"
  shows "\<not> gameOver (gameState s) \<and>
     timeRemaining (gameState (fst (step s (Tick h)))) =
       max 0 (timeRemaining (gameState s) - 1) \<and>
     0 \<le> timeRemaining (gameState (fst (step s (Tick h)))) \<and>
     timeRemaining (gameState (fst (step s (Tick h)))) \<le> timeRemaining (gameState s) \<and>
     step s (Tick h) =
       (if timeRemaining (gameState s) \<le> 1
        then
          (s\<lparr>gameState := (gameState s)
               \<lparr>timeRemaining := 0, gameOver := True, gameResult := JStr ''defeat''\<rparr>,
             intervals := {}\<rparr>,
           [IoEmit ''time update'' [JObj [(''timeRemaining'', JNum 0)]],
            IoEmit ''chat message'' [JStr timeoutChat],
            IoEmit ''game_over''
              [JObj [(''result'', JStr ''defeat''), (''message'', JStr timeoutMessage),
                     (''realTraitor'', traitor (gameState s))]],
            ConsoleLog GAME_OVER_TIME])
        else
          (s\<lparr>gameState := (gameState s)
               \<lparr>timeRemaining := timeRemaining (gameState s) - 1\<rparr>\<rparr>,
           [IoEmit ''time update''
              [JObj [(''timeRemaining'', JNum (timeRemaining (gameState s) - 1))]]])) \<and>
     (timeRemaining (gameState s) \<le> 1 \<longrightarrow>
        run (fst (step s (Tick h))) (map Tick hs) = (fst (step s (Tick h)), [])) \<and>
     (gameOver (gameState s0) \<longrightarrow>
        gameState (fst (gameTimer_callback s0)) = gameState s0 \<and>
        snd (gameTimer_callback s0) = []) \<and>
     ((\<forall>x \<in> set evs. \<not> is_restart x) \<longrightarrow> resolutions (snd (run s evs)) \<le> 1)"
proof -
  have inv: "invariant s" using assms(1) by (rule reachable_invariant)
  have running: "\<not> gameOver (gameState s)"
    using inv assms(2) by (auto simp: invariant_def)
  have pos: "0 \<le> timeRemaining (gameState s)"
    using inv by (simp add: invariant_def)
  have none: "intervals s - set_option (gameTimer s) = {}"
    using inv by (auto simp: invariant_def)
  have tick: "step s (Tick h) = gameTimer_callback s"
    using assms(2) by (simp add: step_def)
  have shape: "step s (Tick h) =
       (if timeRemaining (gameState s) \<le> 1
        then
          (s\<lparr>gameState := (gameState s)
               \<lparr>timeRemaining := 0, gameOver := True, gameResult := JStr ''defeat''\<rparr>,
             intervals := {}\<rparr>,
           [IoEmit ''time update'' [JObj [(''timeRemaining'', JNum 0)]],
            IoEmit ''chat message'' [JStr timeoutChat],
            IoEmit ''game_over''
              [JObj [(''result'', JStr ''defeat''), (''message'', JStr timeoutMessage),
                     (''realTraitor'', traitor (gameState s))]],
            ConsoleLog GAME_OVER_TIME])
        else
          (s\<lparr>gameState := (gameState s)
               \<lparr>timeRemaining := timeRemaining (gameState s) - 1\<rparr>\<rparr>,
           [IoEmit ''time update''
              [JObj [(''timeRemaining'', JNum (timeRemaining (gameState s) - 1))]]]))"
    using running none by (simp add: tick callback_timeout callback_running)
  have time: "timeRemaining (gameState (fst (step s (Tick h)))) =
       max 0 (timeRemaining (gameState s) - 1)"
    using pos by (simp add: shape max_def)
  have silent: "run (fst (step s (Tick h))) (map Tick hs) = (fst (step s (Tick h)), [])"
    if late: "timeRemaining (gameState s) \<le> 1"
  proof -
    have "reachable (fst (step s (Tick h)))"
      using assms(1) by (rule reachable_step) simp
    then have "invariant (fst (step s (Tick h)))" by (rule reachable_invariant)
    moreover have "gameOver (gameState (fst (step s (Tick h))))"
      using late by (simp add: shape)
    ultimately show ?thesis by (rule run_ticks_over)
  qed
  have guard: "gameState (fst (gameTimer_callback s0)) = gameState s0 \<and>
        snd (gameTimer_callback s0) = []"
    if "gameOver (gameState s0)"
    using that by (simp add: callback_over)
  have once: "resolutions (snd (run s evs)) \<le> 1" if "\<forall>x \<in> set evs. \<not> is_restart x"
    using latchings_le_one [OF that, of s] by (simp add: run_resolutions)
  show ?thesis
    using running time pos shape silent guard once by (simp add: max_def)
qed

theorem timer_tick_counts_down_and_times_out_once_witness:
  "reachable two_peers \<and> 0 \<in> intervals two_peers \<and>
   step two_peers (Tick 0) =
     (two_peers\<lparr>gameState := (gameState two_peers)\<lparr>timeRemaining := 599\<rparr>\<rparr>,
      [IoEmit ''time update'' [JObj [(''timeRemaining'', JNum 599)]]]) \<and>
   resolutions (snd (run two_peers [Tick 0, Accuse 2 (Payload (Some label_pilot)), Tick 0])) \<le> 1"
proof -
  have armed: "0 \<in> intervals two_peers" by (simp add: two_peers_eq)
  have time: "timeRemaining (gameState two_peers) = 600" by (simp add: two_peers_eq)
  note tick = timer_tick_counts_down_and_times_out_once
        [OF two_peers_reachable armed, of "[]" two_peers
            "[Tick 0, Accuse 2 (Payload (Some label_pilot)), Tick 0]"]
  have "step two_peers (Tick 0) =
     (two_peers\<lparr>gameState := (gameState two_peers)\<lparr>timeRemaining := 599\<rparr>\<rparr>,
      [IoEmit ''time update'' [JObj [(''timeRemaining'', JNum 599)]]])"
    using tick by (simp add: time del: run.simps)
  moreover have "\<forall>x \<in> set [Tick 0, Accuse 2 (Payload (Some label_pilot)), Tick 0]. \<not> is_restart x"
    by simp
  then have
    "resolutions (snd (run two_peers [Tick 0, Accuse 2 (Payload (Some label_pilot)), Tick 0])) \<le> 1"
    using tick by blast
  ultimately show ?thesis using two_peers_reachable armed by (simp del: run.simps)
qed

subsection \<open>C3: the latch of the end of the game\<close>

text \<open>
  Claim C3. No event other than a restart takes \<open>gameOver\<close> from true to false; in
  a run without a restart it goes from false to true at most once and never back. Once
  it is true, an action and a narration, whatever their payload, return with the state
  as it is and send nothing, an accusation returns with the state as it is and only
  writes a line on the console, and whatever events arrive before a restart leave the
  game state as it is and broadcast nothing.
\<close>

theorem game_over_is_a_latch:
  "(gameOver (gameState s) \<and> \<not> is_restart e \<longrightarrow> gameOver (gameState (fst (step s e)))) \<and>
   ((\<forall>x \<in> set evs. \<not> is_restart x) \<longrightarrow> latchings s evs \<le> 1 \<and> unlatchings s evs = 0) \<and>
   (gameOver (gameState s) \<longrightarrow>
      on_action k action s = Inr (s, []) \<and>
      on_accuse k accusation s = Inr (s, [ConsoleLog ACCUSE_GAME_ALREADY_OVER]) \<and>
      on_ai_response k narration s = Inr (s, [])) \<and>
   (gameOver (gameState s) \<and> (\<forall>x \<in> set evs. \<not> is_restart x) \<longrightarrow>
      gameState (fst (run s evs)) = gameState s \<and> broadcasts (snd (run s evs)) = [])"
proof -
  have "gameOver (gameState (fst (step s e)))"
    if "gameOver (gameState s)" and "\<not> is_restart e"
    using that step_frozen [of s e] by simp
  moreover have "latchings s evs \<le> 1 \<and> unlatchings s evs = 0"
    if "\<forall>x \<in> set evs. \<not> is_restart x"
    using that by (rule latchings_le_one)
  moreover have "on_action k action s = Inr (s, []) \<and>
      on_accuse k accusation s = Inr (s, [ConsoleLog ACCUSE_GAME_ALREADY_OVER]) \<and>
      on_ai_response k narration s = Inr (s, [])"
    if "gameOver (gameState s)"
    using that by (simp add: action_over accuse_over ai_over)
  moreover have "gameState (fst (run s evs)) = gameState s \<and> broadcasts (snd (run s evs)) = []"
    if "gameOver (gameState s)" and "\<forall>x \<in> set evs. \<not> is_restart x"
    using that by (simp add: run_frozen run_silent)
  ultimately show ?thesis by blast
qed

theorem game_over_is_a_latch_witness:
  "gameOver (gameState ended_session) \<and>
   run ended_session
     [Action 2 (Payload (Some ''look'', None)), Accuse 2 (Payload (Some label_captain)),
      AiResponse 2 (Payload (Some ''a noise'', None)), Tick 0] =
     (ended_session, [ConsoleLog ACCUSE_GAME_ALREADY_OVER]) \<and>
   latchings two_peers
     [Accuse 2 (Payload (Some label_doctor)), Accuse 2 (Payload (Some label_captain)), Tick 0] = 1"
proof -
  let ?after = "[Action 2 (Payload (Some ''look'', None)), Accuse 2 (Payload (Some label_captain)),
      AiResponse 2 (Payload (Some ''a noise'', None)), Tick 0]"
  let ?accusations = "[Accuse 2 (Payload (Some label_doctor)), Accuse 2 (Payload (Some label_captain)), Tick 0]"
  have over: "gameOver (gameState ended_session)"
    by (simp add: ended_session_eq)
  have frozen: "on_action 2 (Payload (Some ''look'', None)) ended_session =
         Inr (ended_session, [])"
      "on_accuse 2 (Payload (Some label_captain)) ended_session =
         Inr (ended_session, [ConsoleLog ACCUSE_GAME_ALREADY_OVER])"
      "on_ai_response 2 (Payload (Some ''a noise'', None)) ended_session =
         Inr (ended_session, [])"
    using over
      game_over_is_a_latch
        [of ended_session "Tick 0" "[]" 2 "Payload (Some ''look'', None)"
            "Payload (Some label_captain)" "Payload (Some ''a noise'', None)"]
    by simp_all
  have socks: "sockets ended_session = {1, 2}" "intervals ended_session = {}"
    by (simp_all add: ended_session_eq)
  have run: "run ended_session ?after = (ended_session, [ConsoleLog ACCUSE_GAME_ALREADY_OVER])"
    by (simp add: step_def frozen socks)
  have first: "fst (step two_peers (Accuse 2 (Payload (Some label_doctor)))) = ended_session"
    by (simp add: ended_session_def)
  have "latchings two_peers ?accusations \<le> 1"
    using game_over_is_a_latch [of two_peers "Tick 0" ?accusations] by simp
  moreover have "\<not> gameOver (gameState two_peers)"
    by (simp add: two_peers_eq)
  then have "1 \<le> latchings two_peers ?accusations"
    using over by (simp add: first)
  ultimately show ?thesis using over run by simp
qed

subsection \<open>C4: the secret role and the broadcasts\<close>

text \<open>
  Claim C4. \<open>startGame\<close> draws the traitor from the four roles Captain, Engineer,
  Doctor and Pilot. Take two runs of the server that differ in the draws only: they
  start from states that are the same to the public, such as two loads of the module,
  and receive the same events, a restart in one being a restart from the same socket in
  the other. Then the broadcasts of the two runs other than the \<open>game_over\<close> event
  are the same, one by one, whatever the roles drawn: no chat line, game response, time
  update or reset depends on the traitor. A \<open>game_over\<close> event, the one broadcast
  that carries the traitor, is only broadcast by a step that takes \<open>gameOver\<close> from
  false to true, that is at the resolution.
\<close>

theorem secret_role_only_in_game_over_broadcast:
  "(valid_draw u \<longrightarrow> traitor (gameState (fst (startGame u s))) \<in> JStr ` set ROLES) \<and>
   set ROLES = {''Captain'', ''Engineer'', ''Doctor'', ''Pilot''} \<and> length ROLES = 4 \<and>
   (same_public s1 s2 \<and> list_all2 same_but_draw evs1 evs2 \<longrightarrow>
      public_before_end (snd (run s1 evs1)) = public_before_end (snd (run s2 evs2)) \<and>
      same_public (fst (run s1 evs1)) (fst (run s2 evs2))) \<and>
   same_public (fst (boot u1)) (fst (boot u2)) \<and>
   public_before_end (snd (boot u1)) = public_before_end (snd (boot u2)) \<and>
   (list_all2 same_but_draw evs1 evs2 \<longrightarrow>
      public_before_end (snd (boot u1) @ snd (run (fst (boot u1)) evs1)) =
      public_before_end (snd (boot u2) @ snd (run (fst (boot u2)) evs2))) \<and>
   (x \<in> set (snd (step s e)) \<and> is_game_over_event x \<longrightarrow>
      \<not> gameOver (gameState s) \<and> gameOver (gameState (fst (step s e))))"
proof -
  have drawn: "traitor (gameState (fst (startGame u s))) \<in> JStr ` set ROLES"
    if "valid_draw u"
    using ROLES_at_role [OF that] by (simp add: startGame_state)
  have roles: "set ROLES = {''Captain'', ''Engineer'', ''Doctor'', ''Pilot''}"
    and four: "length ROLES = 4"
    by (simp_all add: ROLES_def)
  have runs: "public_before_end (snd (run s1 evs1)) = public_before_end (snd (run s2 evs2)) \<and>
      same_public (fst (run s1 evs1)) (fst (run s2 evs2))"
    if "same_public s1 s2" and "list_all2 same_but_draw evs1 evs2" for s1 s2
    using run_unwinding [OF that(2) that(1)] by simp
  have boots: "same_public (fst (boot u1)) (fst (boot u2))"
    by (simp add: boot_def startGame_state same_public_def)
  have quiet: "public_before_end (snd (boot u1)) = public_before_end (snd (boot u2))"
    by (simp add: boot_def startGame_out initialState_def public_before_end_def)
  have whole: "public_before_end (snd (boot u1) @ snd (run (fst (boot u1)) evs1)) =
      public_before_end (snd (boot u2) @ snd (run (fst (boot u2)) evs2))"
    if "list_all2 same_but_draw evs1 evs2"
    using runs [OF boots that] quiet by (simp add: public_before_end_def)
  have latch: "\<not> gameOver (gameState s) \<and> gameOver (gameState (fst (step s e)))"
    if "x \<in> set (snd (step s e))" and "is_game_over_event x"
    using that by (rule game_over_event_latches)
  show ?thesis
    using drawn roles four runs boots quiet whole latch by blast
qed

theorem secret_role_only_in_game_over_broadcast_witness:
  "valid_draw (1/2) \<and>
   traitor (gameState (fst (boot (1/2)))) = JStr ''Doctor'' \<and>
   traitor (gameState (fst (boot (1/4)))) = JStr ''Engineer'' \<and>
   list_all2 same_but_draw
     [Connection 1, Action 1 (Payload (Some ''look'', None)), Accuse 1 (Payload (Some label_doctor))]
     [Connection 1, Action 1 (Payload (Some ''look'', None)), Accuse 1 (Payload (Some label_doctor))] \<and>
   public_before_end
     (snd (run (fst (boot (1/2)))
        [Connection 1, Action 1 (Payload (Some ''look'', None)), Accuse 1 (Payload (Some label_doctor))])) =
   public_before_end
     (snd (run (fst (boot (1/4)))
        [Connection 1, Action 1 (Payload (Some ''look'', None)), Accuse 1 (Payload (Some label_doctor))]))"
proof -
  let ?evs = "[Connection 1, Action 1 (Payload (Some ''look'', None)), Accuse 1 (Payload (Some label_doctor))]"
  note inst = secret_role_only_in_game_over_broadcast
    [of "1/2" initialState "fst (boot (1/2))" "fst (boot (1/4))" ?evs ?evs "1/2" "1/4"]
  have v: "valid_draw (1/2)" by (simp add: valid_draw_def)
  have same: "list_all2 same_but_draw ?evs ?evs" by simp
  have start: "same_public (fst (boot (1/2))) (fst (boot (1/4)))"
    using inst by blast
  have "public_before_end (snd (run (fst (boot (1/2))) ?evs)) =
        public_before_end (snd (run (fst (boot (1/4))) ?evs))"
    using inst start same by blast
  moreover have "traitor (gameState (fst (boot (1/2)))) = JStr ''Doctor''"
    by (simp add: boot_half)
  moreover have "traitor (gameState (fst (boot (1/4)))) = JStr ''Engineer''"
    by (simp add: boot_def startGame_state ROLES_at_def ROLES_def)
  ultimately show ?thesis using v same by blast
qed
subsection \<open>C5: the action of a player\<close>




subsection \<open>C6: the restart\<close>

text \<open>
  Claim C6. In every state that the server reaches, \<open>startGame\<close> with a draw of
  \<open>Math.random()\<close> replaces the whole game state at once: turn 0, time 600, result
  unset, conversation empty, game not over, player on the bridge and alive, and a
  traitor that is one of the four roles. When it returns, exactly one interval is armed,
  the new one that \<open>gameTimer\<close> holds; the handle is fresh, so every interval that was
  armed before is cleared and two timers never run. The handler of \<open>restart_game\<close>
  leaves the same state, and so does the load of the module.
\<close>

theorem restart_reinitializes_and_rearms_one_timer:
  assumes "reachable s" and "valid_draw u"
  shows "gameState (fst (startGame u s)) =
           \<lparr>turn = 0, playerLocation = ''bridge'', isAlive = True, conversation = [],
            gameOver = False, traitor = ROLES_at \<lfloor>u * real (length ROLES)\<rfloor>,
            timeRemaining = 600, gameResult = JNull\<rparr> \<and>
         ROLES_at \<lfloor>u * real (length ROLES)\<rfloor> \<in> JStr ` set ROLES \<and>
         length ROLES = 4 \<and>
         intervals (fst (startGame u s)) = {next_interval s} \<and>
         gameTimer (fst (startGame u s)) = Some (next_interval s) \<and>
         card (intervals (fst (startGame u s))) = 1 \<and>
         intervals s \<inter> intervals (fst (startGame u s)) = {} \<and>
         card (intervals s) \<le> 1 \<and>
         fst (on_restart_game k u s) = fst (startGame u s) \<and>
         gameState (fst (boot u)) = gameState (fst (startGame u s)) \<and>
         card (intervals (fst (boot u))) = 1"
proof -
  have inv: "invariant s" using assms(1) by (rule reachable_invariant)
  have sub: "intervals s \<subseteq> set_option (gameTimer s)"
    and fresh: "\<forall>h \<in> intervals s. h < next_interval s"
    using inv by (simp_all add: invariant_def)
  have none: "intervals s - set_option (gameTimer s) = {}" using sub by blast
  have state: "gameState (fst (startGame u s)) =
           \<lparr>turn = 0, playerLocation = ''bridge'', isAlive = True, conversation = [],
            gameOver = False, traitor = ROLES_at \<lfloor>u * real (length ROLES)\<rfloor>,
            timeRemaining = 600, gameResult = JNull\<rparr>"
    by (cases "gameState s") (simp add: startGame_state)
  have boot: "gameState (fst (boot u)) = gameState (fst (startGame u s))"
    unfolding state by (simp add: boot_def startGame_state initialState_def)
  have armed: "intervals (fst (startGame u s)) = {next_interval s}"
    using none by (auto simp: startGame_state)
  have held: "gameTimer (fst (startGame u s)) = Some (next_interval s)"
    by (simp add: startGame_state)
  have disjoint: "intervals s \<inter> intervals (fst (startGame u s)) = {}"
    using fresh unfolding armed by auto
  have before: "card (intervals s) \<le> 1"
  proof (cases "gameTimer s")
    case None
    then show ?thesis using sub by simp
  next
    case (Some h)
    then have "intervals s \<subseteq> {h}" using sub by simp
    then have "card (intervals s) \<le> card {h}" by (intro card_mono) simp_all
    then show ?thesis by simp
  qed
  have booted: "card (intervals (fst (boot u))) = 1"
    by (simp add: boot_def startGame_state initialState_def)
  have four: "length ROLES = 4" by (simp add: ROLES_def)
  show ?thesis
    using state ROLES_at_role [OF assms(2)] four armed held disjoint before boot booted
      restart_state [of k u s]
    by simp
qed

theorem restart_reinitializes_and_rearms_one_timer_witness:
  "reachable two_peers \<and> valid_draw (3/4) \<and> intervals two_peers = {0} \<and>
   gameState (fst (startGame (3/4) two_peers)) =
     \<lparr>turn = 0, playerLocation = ''bridge'', isAlive = True, conversation = [],
      gameOver = False, traitor = JStr ''Pilot'', timeRemaining = 600, gameResult = JNull\<rparr> \<and>
   intervals (fst (startGame (3/4) two_peers)) = {1}"
proof -
  have v: "valid_draw (3/4)" by (simp add: valid_draw_def)
  show ?thesis
    using v two_peers_reachable
      restart_reinitializes_and_rearms_one_timer [OF two_peers_reachable v, of 1]
    by (simp add: two_peers_eq ROLES_at_def ROLES_def)
qed

subsection \<open>C7: the sends of the secret role to the simulation\<close>

text \<open>
  Claim C7 says that one restart with a simulation connected sends the new secret role
  to the simulation exactly once. It is sent twice: by \<open>startGame\<close> and again by the
  handler of \<open>restart_game\<close>. Here the simulation is on socket 1 and the draw 1/4
  gives the engineer.
\<close>

theorem restart_sends_secret_twice_counterexample:
  "simulationSocket two_peers = Some 1 \<and>
   secret_sends (snd (step two_peers (RestartGame 2 (1/4)))) =
     [(Some 1, [JStr ''Engineer'']), (Some 1, [JStr ''Engineer''])]"
  by (simp add: step_def restart_out_secret two_peers_eq ROLES_at_def ROLES_def)

text \<open>
  Claim C7 as amended. In every state that the server reaches, the event
  \<open>secret_traitor_info\<close> is sent by two events only, never broadcast, and always to
  the socket registered as the simulation with the secret role of the session as its
  only argument: \<open>simulation-ready\<close> sends it once to the socket that announces itself,
  and \<open>restart_game\<close> with a simulation registered sends the newly drawn role to it
  twice (once in \<open>startGame\<close>, once in the handler), and sends nothing when none is
  registered. The load of the module sends nothing, since no simulation is registered
  yet.
\<close>

theorem secret_role_sends:
  assumes "reachable s"
  shows "secret_sends (snd (step s e)) =
     (case e of
        SimulationReady k \<Rightarrow>
          if k \<in> sockets s then [(Some k, [traitor (gameState s)])] else []
      | RestartGame k u \<Rightarrow>
          if k \<in> sockets s
          then (case simulationSocket s of
                  Some c \<Rightarrow> [(Some c, [ROLES_at \<lfloor>u * real (length ROLES)\<rfloor>]),
                             (Some c, [ROLES_at \<lfloor>u * real (length ROLES)\<rfloor>])]
                | None \<Rightarrow> [])
          else []
      | _ \<Rightarrow> []) \<and>
     (\<forall>x \<in> set (secret_sends (snd (step s e))).
        fst x \<noteq> None \<and> fst x = simulationSocket (fst (step s e)) \<and>
        snd x = [traitor (gameState (fst (step s e)))]) \<and>
     secret_sends (snd (boot u0)) = []"
proof -
  have t: "truthy (traitor (gameState s))"
    using reachable_invariant [OF assms] by (simp add: invariant_def role_truthy)
  have shape: "secret_sends (snd (step s e)) =
     (case e of
        SimulationReady k \<Rightarrow>
          if k \<in> sockets s then [(Some k, [traitor (gameState s)])] else []
      | RestartGame k u \<Rightarrow>
          if k \<in> sockets s
          then (case simulationSocket s of
                  Some c \<Rightarrow> [(Some c, [ROLES_at \<lfloor>u * real (length ROLES)\<rfloor>]),
                             (Some c, [ROLES_at \<lfloor>u * real (length ROLES)\<rfloor>])]
                | None \<Rightarrow> [])
          else []
      | _ \<Rightarrow> [])"
    using t
    by (cases e)
       (simp_all add: step_def callback_out_secret action_out_secret accuse_out_secret
          ai_out_secret request_out_secret restart_out_secret on_simulation_ready_def
          on_disconnect_def Let_def)
  have dest: "\<forall>x \<in> set (secret_sends (snd (step s e))).
        fst x \<noteq> None \<and> fst x = simulationSocket (fst (step s e)) \<and>
        snd x = [traitor (gameState (fst (step s e)))]"
    by (cases e)
       (auto simp: step_def callback_out_secret action_out_secret accuse_out_secret
          ai_out_secret request_out_secret restart_out_secret restart_state startGame_state
          on_simulation_ready_def on_disconnect_def Let_def split: option.splits)
  have "secret_sends (snd (boot u0)) = []"
    by (simp add: boot_def startGame_out initialState_def)
  then show ?thesis using shape dest by blast
qed

theorem secret_role_sends_witness:
  "reachable two_peers \<and>
   secret_sends (snd (step two_peers (SimulationReady 2))) = [(Some 2, [JStr ''Doctor''])] \<and>
   secret_sends (snd (step two_peers (RestartGame 1 (3/4)))) =
     [(Some 1, [JStr ''Pilot'']), (Some 1, [JStr ''Pilot''])] \<and>
   secret_sends (snd (step two_peers (Action 2 (Payload (Some ''look'', None))))) = []"
  using two_peers_reachable
    secret_role_sends [OF two_peers_reachable, of "SimulationReady 2"]
    secret_role_sends [OF two_peers_reachable, of "RestartGame 1 (3/4)"]
    secret_role_sends [OF two_peers_reachable, of "Action 2 (Payload (Some ''look'', None))"]
  by (simp add: two_peers_eq ROLES_at_def ROLES_def)

subsection \<open>C8: the reply to request-initial-state\<close>

text \<open>
  Claim C8 says that the \<open>game_over\<close> event of the reply carries \<open>result\<close>,
  \<open>message\<close> and \<open>realTraitor\<close>. In the session where the doctor was accused and the
  game is over, the reply goes to the socket that asked and to no other, and carries the
  time, but the object of its \<open>game_over\<close> event has the two properties \<open>result\<close>
  and \<open>message\<close> only: \<open>realTraitor\<close>, which both broadcasts of the event carry,
  is not there.
\<close>

theorem late_reply_game_over_lacks_realTraitor:
  "step ended_session (RequestInitialState 2) =
     (ended_session,
      [SocketEmit 2 ''time update'' [JObj [(''timeRemaining'', JNum 600)]],
       SocketEmit 2 ''game_over''
         [JObj [(''result'', JStr ''victory''), (''message'', JStr victoryMessage)]]])"
  by (simp add: step_def on_request_initial_state_def ended_session_eq)

subsection \<open>C9: who may send a narration\<close>




subsection \<open>C10: the reply to a late client after a timeout\<close>

text \<open>
  Claim C10. When a session ends by the expiry of the timer, the tick broadcasts the
  \<open>game_over\<close> event with the narrative of the timeout; every later reply to
  \<open>request-initial-state\<close> in that session (after any events other than a restart)
  rebuilds the message from the stored result alone, so it carries the narrative of a
  wrong accusation, which is a different text.
\<close>

theorem timeout_reply_has_accusation_narrative:
  assumes "h \<in> intervals s" and "\<not> gameOver (gameState s)"
    and "timeRemaining (gameState s) \<le> 1" and "\<forall>e \<in> set evs. \<not> is_restart e"
  shows "IoEmit ''game_over''
           [JObj [(''result'', JStr ''defeat''), (''message'', JStr timeoutMessage),
                  (''realTraitor'', traitor (gameState s))]]
           \<in> set (snd (step s (Tick h))) \<and>
         snd (on_request_initial_state k (fst (run (fst (step s (Tick h))) evs))) =
           [SocketEmit k ''time update'' [JObj [(''timeRemaining'', JNum 0)]],
            SocketEmit k ''game_over''
              [JObj [(''result'', JStr ''defeat''), (''message'', JStr defeatMessage)]]] \<and>
         defeatMessage \<noteq> timeoutMessage"
proof -
  let ?s = "fst (step s (Tick h))"
  have tick: "step s (Tick h) = gameTimer_callback s"
    using assms(1) by (simp add: step_def)
  have over: "gameOver (gameState ?s)"
    and res: "gameResult (gameState ?s) = JStr ''defeat''"
    and time: "timeRemaining (gameState ?s) = 0"
    using assms(2,3) by (simp_all add: tick callback_timeout)
  have same: "gameState (fst (run ?s evs)) = gameState ?s"
    using over assms(4) by (rule run_frozen)
  have "snd (on_request_initial_state k (fst (run ?s evs))) =
          [SocketEmit k ''time update'' [JObj [(''timeRemaining'', JNum 0)]],
           SocketEmit k ''game_over''
             [JObj [(''result'', JStr ''defeat''), (''message'', JStr defeatMessage)]]]"
    using over res time by (simp add: request_over same)
  moreover have "IoEmit ''game_over''
           [JObj [(''result'', JStr ''defeat''), (''message'', JStr timeoutMessage),
                  (''realTraitor'', traitor (gameState s))]]
           \<in> set (snd (step s (Tick h)))"
    using assms(2,3) by (simp add: tick callback_timeout)
  ultimately show ?thesis using messages_differ by blast
qed

theorem timeout_reply_has_accusation_narrative_witness:
  "snd (on_request_initial_state 2
          (fst (run (fst (step (two_peers\<lparr>gameState := (gameState two_peers)\<lparr>timeRemaining := 1\<rparr>\<rparr>)
                            (Tick 0)))
                    [Action 2 (Payload (Some ''hello'', None)), RequestInitialState 1]))) =
     [SocketEmit 2 ''time update'' [JObj [(''timeRemaining'', JNum 0)]],
      SocketEmit 2 ''game_over''
        [JObj [(''result'', JStr ''defeat''), (''message'', JStr defeatMessage)]]]"
  using timeout_reply_has_accusation_narrative
    [of 0 "two_peers\<lparr>gameState := (gameState two_peers)\<lparr>timeRemaining := 1\<rparr>\<rparr>"
        "[Action 2 (Payload (Some ''hello'', None)), RequestInitialState 1]" 2]
  by (simp add: two_peers_eq)


end
